theory Spec2Isabelle
  imports Main
begin

section \<open>Tensors, the store and the machine\<close>

text \<open>
  The header \<^verbatim>\<open>dynet/matrix-multiply.h\<close> contains three entry points, each in a CPU
  version (Eigen expressions) and an accelerator version (calls of \<^verbatim>\<open>cublasSgemm\<close>).
  All of them work on raw buffers: a tensor is a dimension descriptor and a pointer, and
  the same buffer is read either slice by slice or as one wide column-major matrix.
  The embedding therefore keeps an explicit store (addresses to elements) and models a
  pointer as an address.

  The definitions ask of the element type only an addition that is associative and
  commutative with the neutral element zero, and a multiplication that is associative with
  the neutral element one. They do not ask that zero times an element is zero: the
  \<^verbatim>\<open>float\<close> type of the source has elements (NaN, the infinities) for which it is
  not, and the scaling statement of \<^verbatim>\<open>MatrixMultiply\<close> multiplies by the caller's
  scalar. A statement below fixes the elements it is about: exact arithmetic (a
  commutative semiring with unit) unless it says otherwise. Rounding is not part of the
  embedding.
\<close>

text \<open>
  Modelled from the spec: the dimension descriptor of \<^verbatim>\<open>dynet/dim.h\<close> (not part of
  the sources at hand) is the triple (rows, cols, batch count) of the data model, with
  \<^verbatim>\<open>batch_size\<close> the number of elements of one batch element (the stride
  rows \<times> cols) and \<^verbatim>\<open>batch_elems\<close> the batch count. Sizes are natural numbers: the
  widths of the integer fields are declared in that header, and the statements below are
  about sizes, products of sizes and addresses that fit them. The one conversion that the
  header at hand writes itself, of a batch count to \<^verbatim>\<open>int\<close> in the transposed variants, is
  part of the embedding (\<open>int_of_unsigned\<close> below).
\<close>

record Dim =
  rows :: nat
  cols :: nat
  bd :: nat

definition batch_size :: "Dim \<Rightarrow> nat" where
  "batch_size D = rows D * cols D"

definition batch_elems :: "Dim \<Rightarrow> nat" where
  "batch_elems D = bd D"

text \<open>A tensor: its descriptor \<^verbatim>\<open>d\<close> and the address \<^verbatim>\<open>v\<close> of its first element.\<close>

record Tensor =
  d :: Dim
  v :: nat

text \<open>
  The machine: the store, the device selected by \<^verbatim>\<open>cudaSetDevice\<close>, and a counter of
  the multiply primitives issued so far. The counter is instrumentation (no variable of
  the program holds it); it lets the statements below speak about the number of backend
  calls.
\<close>

record 'a machine =
  store :: "nat \<Rightarrow> 'a"
  cur_device :: int
  gemm_calls :: nat

record Device_GPU =
  cuda_device_id :: int

definition cudaSetDevice :: "int \<Rightarrow> 'a machine \<Rightarrow> 'a machine" where
  "cudaSetDevice dev_id s = s\<lparr>cur_device := dev_id\<rparr>"

subsection \<open>Tensor accessors\<close>

text \<open>
  Modelled from the spec: the accessors of \<^verbatim>\<open>dynet/tensor.h\<close> (not part of the sources
  at hand). Batch elements lie one after the other, each column-major, with stride
  \<^verbatim>\<open>batch_size\<close>. \<^verbatim>\<open>batch_ptr\<close> is the pointer to one batch element; a tensor with batch
  count one is reused at every index, which the index taken modulo the batch count gives
  (an index at or past a batch count above one is outside the accessor's contract; the
  model wraps it too). \<^verbatim>\<open>batch_matrix\<close> is the matrix view of one batch element,
  \<^verbatim>\<open>colbatch_matrix\<close> the view of the whole batch as one wide matrix of
  rows \<times> (cols \<times> batch count), \<^verbatim>\<open>deref\<close> (the operator \<^verbatim>\<open>*t\<close>) the matrix view of a tensor
  with a single batch element.
\<close>

datatype EigenMap = EigenMap (mdata: nat) (mrows: nat) (mcols: nat)

definition batch_ptr :: "Tensor \<Rightarrow> nat \<Rightarrow> nat" where
  "batch_ptr t bid = v t + (bid mod bd (d t)) * batch_size (d t)"

definition batch_matrix :: "Tensor \<Rightarrow> nat \<Rightarrow> EigenMap" where
  "batch_matrix t bid = EigenMap (batch_ptr t bid) (rows (d t)) (cols (d t))"

definition colbatch_matrix :: "Tensor \<Rightarrow> EigenMap" where
  "colbatch_matrix t = EigenMap (v t) (rows (d t)) (cols (d t) * batch_elems (d t))"

definition deref :: "Tensor \<Rightarrow> EigenMap" where
  "deref t = EigenMap (v t) (rows (d t)) (cols (d t))"

text \<open>
  The statement \<^verbatim>\<open>y.tbvec() = a * y.tbvec()\<close>: every element of the buffer of \<^verbatim>\<open>y\<close>
  (all batch elements) is multiplied by the scalar.
\<close>

definition tensor_size :: "Tensor \<Rightarrow> nat" where
  "tensor_size t = batch_size (d t) * batch_elems (d t)"

definition scale_tbvec :: "'a::{comm_monoid_add,monoid_mult} \<Rightarrow> Tensor \<Rightarrow> 'a machine \<Rightarrow> 'a machine" where
  "scale_tbvec a y s =
     s\<lparr>store := (\<lambda>x. if v y \<le> x \<and> x < v y + tensor_size y then a * store s x
                       else store s x)\<rparr>"

subsection \<open>Eigen expressions (CPU backend)\<close>

text \<open>
  Modelled from the spec: the matrix expressions of the Eigen library that the CPU
  versions use: a view of a buffer, the transpose and the product. A product whose inner
  dimensions differ has no value; Eigen asserts on it. The statement
  \<^verbatim>\<open>dst.noalias() += e\<close> adds the value of the expression to the destination view; it
  is one multiply primitive. \<^verbatim>\<open>noalias\<close> is the caller's promise that the destination
  does not overlap the operands; the model reads every operand in the state before the
  statement. When the shapes disagree the statement has no result (\<open>None\<close>).
\<close>

datatype expr = Ref EigenMap | Transpose expr | Product expr expr

fun erows :: "expr \<Rightarrow> nat" and ecols :: "expr \<Rightarrow> nat" where
  "erows (Ref m) = mrows m"
| "erows (Transpose e) = ecols e"
| "erows (Product a b) = erows a"
| "ecols (Ref m) = mcols m"
| "ecols (Transpose e) = erows e"
| "ecols (Product a b) = ecols b"

fun well_shaped :: "expr \<Rightarrow> bool" where
  "well_shaped (Ref m) = True"
| "well_shaped (Transpose e) = well_shaped e"
| "well_shaped (Product a b) = (well_shaped a \<and> well_shaped b \<and> ecols a = erows b)"

fun coeff :: "(nat \<Rightarrow> 'a::{comm_monoid_add,monoid_mult}) \<Rightarrow> expr \<Rightarrow> nat \<Rightarrow> nat \<Rightarrow> 'a" where
  "coeff st (Ref m) i j = st (mdata m + i + j * mrows m)"
| "coeff st (Transpose e) i j = coeff st e j i"
| "coeff st (Product a b) i j = (\<Sum>p<ecols a. coeff st a i p * coeff st b p j)"

definition noalias_add_assign ::
  "EigenMap \<Rightarrow> expr \<Rightarrow> 'a::{comm_monoid_add,monoid_mult} machine \<Rightarrow> 'a machine option" where
  "noalias_add_assign dst e s =
     (if well_shaped e \<and> erows e = mrows dst \<and> ecols e = mcols dst
      then Some (s\<lparr>store := (\<lambda>x. if mdata dst \<le> x \<and> x < mdata dst + mrows dst * mcols dst
                                 then store s x
                                      + coeff (store s) e ((x - mdata dst) mod mrows dst)
                                                          ((x - mdata dst) div mrows dst)
                                 else store s x),
                    gemm_calls := gemm_calls s + 1\<rparr>)
      else None)"

subsection \<open>The BLAS primitive (accelerator backend)\<close>

text \<open>
  Modelled from the spec: \<^verbatim>\<open>cublasSgemm\<close>, the general matrix multiply with scalar
  pre-multiply and accumulate, \<open>C \<leftarrow> alpha \<cdot> op(A) \<cdot> op(B) + beta \<cdot> C\<close>, where \<open>op(A)\<close> is
  \<open>m \<times> k\<close>, \<open>op(B)\<close> is \<open>k \<times> n\<close>, \<open>C\<close> is \<open>m \<times> n\<close>, all column-major with the leading
  dimensions \<open>lda\<close>, \<open>ldb\<close>, \<open>ldc\<close>; \<open>op_addr\<close> is the address of element \<open>(i, j)\<close> of
  \<open>op(A)\<close>. The status of the call, checked by \<^verbatim>\<open>CUBLAS_CHECK\<close>
  (a macro of \<^verbatim>\<open>dynet/cuda.h\<close>, which aborts the process), is outside the model: the
  model is the successful call. The old contents of \<open>C\<close> are multiplied by \<open>beta\<close>
  for every \<open>beta\<close>; the library does not read \<open>C\<close> when \<open>beta\<close> is zero, which is
  the same result wherever zero times the old element is zero. \<^verbatim>\<open>kSCALAR_ONE\<close> is the
  constant one.
\<close>

datatype cublasOperation = CUBLAS_OP_N | CUBLAS_OP_T

definition op_addr :: "cublasOperation \<Rightarrow> nat \<Rightarrow> nat \<Rightarrow> nat \<Rightarrow> nat \<Rightarrow> nat" where
  "op_addr tr A lda i j =
     (case tr of CUBLAS_OP_N \<Rightarrow> A + i + j * lda | CUBLAS_OP_T \<Rightarrow> A + j + i * lda)"

definition kSCALAR_ONE :: "'a::{comm_monoid_add,monoid_mult}" where
  "kSCALAR_ONE = 1"

definition cublasSgemm ::
  "cublasOperation \<Rightarrow> cublasOperation \<Rightarrow> nat \<Rightarrow> nat \<Rightarrow> nat \<Rightarrow> 'a::{comm_monoid_add,monoid_mult} \<Rightarrow>
   nat \<Rightarrow> nat \<Rightarrow> nat \<Rightarrow> nat \<Rightarrow> 'a \<Rightarrow> nat \<Rightarrow> nat \<Rightarrow> 'a machine \<Rightarrow> 'a machine" where
  "cublasSgemm transa transb m n k alpha A lda B ldb beta C ldc s =
     s\<lparr>store := (\<lambda>x. if C \<le> x \<and> (x - C) mod ldc < m \<and> (x - C) div ldc < n
                       then alpha * (\<Sum>p<k. store s (op_addr transa A lda ((x - C) mod ldc) p)
                                            * store s (op_addr transb B ldb p ((x - C) div ldc)))
                            + beta * store s x
                       else store s x),
        gemm_calls := gemm_calls s + 1\<rparr>"

subsection \<open>Loops\<close>

text \<open>
  \<^verbatim>\<open>for (b = 0; b < n; ++b) body(b)\<close>: the body runs for \<open>b = 0, \<dots>, n - 1\<close> in this
  order. In the CPU versions a failed statement ends the run.
\<close>

primrec for_upto :: "nat \<Rightarrow> (nat \<Rightarrow> 's \<Rightarrow> 's) \<Rightarrow> 's \<Rightarrow> 's" where
  "for_upto 0 body s = s"
| "for_upto (Suc n) body s = body n (for_upto n body s)"

primrec for_upto_opt :: "nat \<Rightarrow> (nat \<Rightarrow> 's \<Rightarrow> 's option) \<Rightarrow> 's \<Rightarrow> 's option" where
  "for_upto_opt 0 body s = Some s"
| "for_upto_opt (Suc n) body s =
     (case for_upto_opt n body s of None \<Rightarrow> None | Some s' \<Rightarrow> body n s')"

section \<open>The entry points\<close>

text \<open>
  Each entry point is translated twice, as the preprocessor selects it: \<open>_GPU\<close> is the
  version under \<^verbatim>\<open>__CUDACC__\<close>, \<open>_CPU\<close> the other one. The tensors are passed as their
  descriptors and addresses; the buffers live in the store of the machine, which every
  function takes and returns. \<^verbatim>\<open>acc_scalar\<close> is passed as the value it points to. The CPU
  versions use their device argument only to name the Eigen device that evaluates the
  scaling statement; the translation leaves this argument out. The accelerator versions
  use of their device the identifier (in \<^verbatim>\<open>MatrixMultiply\<close>), the handle of the library and
  the constant \<^verbatim>\<open>kSCALAR_ONE\<close>.
\<close>

subsection \<open>MatrixMultiply\<close>

definition MatrixMultiply_GPU ::
  "Device_GPU \<Rightarrow> Tensor \<Rightarrow> Tensor \<Rightarrow> Tensor \<Rightarrow> 'a::{comm_monoid_add,monoid_mult} \<Rightarrow> 'a machine \<Rightarrow> 'a machine" where
  "MatrixMultiply_GPU dev l r y acc_scalar s0 =
     (let s = cudaSetDevice (cuda_device_id dev) s0 in
      if bd (d l) = 1 \<and> bd (d r) = bd (d y)
      then cublasSgemm CUBLAS_OP_N CUBLAS_OP_N
             (rows (d y)) (cols (d y) * batch_elems (d y)) (cols (d l))
             kSCALAR_ONE
             (v l) (rows (d l))
             (v r) (rows (d r))
             acc_scalar (v y) (rows (d y)) s
      else for_upto (bd (d y)) (\<lambda>b.
             cublasSgemm CUBLAS_OP_N CUBLAS_OP_N
               (rows (d y)) (cols (d y)) (cols (d l))
               kSCALAR_ONE
               (batch_ptr l b) (rows (d l))
               (batch_ptr r b) (rows (d r))
               acc_scalar (batch_ptr y b) (rows (d y))) s)"

definition MatrixMultiply_CPU ::
  "Tensor \<Rightarrow> Tensor \<Rightarrow> Tensor \<Rightarrow> 'a::{comm_monoid_add,monoid_mult} \<Rightarrow> 'a machine \<Rightarrow> 'a machine option" where
  "MatrixMultiply_CPU l r y acc_scalar s0 =
     (let s = scale_tbvec acc_scalar y s0 in
      if bd (d l) = 1 \<and> bd (d r) = bd (d y)
      then noalias_add_assign (colbatch_matrix y)
             (Product (Ref (deref l)) (Ref (colbatch_matrix r))) s
      else for_upto_opt (bd (d y)) (\<lambda>b.
             noalias_add_assign (batch_matrix y b)
               (Product (Ref (batch_matrix l b)) (Ref (batch_matrix r b)))) s)"

subsection \<open>The loop bound of the transposed variants\<close>

text \<open>
  The two transposed variants declare \<^verbatim>\<open>int max_b = std::max(l.d.bd, r.d.bd)\<close> and loop
  with \<^verbatim>\<open>for (int b = 0; b < max_b; ++b)\<close>, where the batch counts are unsigned (the
  forward multiply compares them with an \<^verbatim>\<open>unsigned\<close> counter). The maximum is taken
  on the unsigned values and then stored in an \<^verbatim>\<open>int\<close>. \<open>int_of_unsigned\<close> is this
  conversion for 32-bit integers: the value modulo \<open>2\<^sup>3\<^sup>2\<close>, read in two's complement.
  A batch count below \<open>2\<^sup>3\<^sup>1\<close> keeps its value; from \<open>2\<^sup>3\<^sup>1\<close> on the
  result is negative. The loop runs for \<open>b = 0, \<dots>, max_b - 1\<close>, that is \<open>nat max_b\<close>
  times, and not at all when \<open>max_b\<close> is negative; the counter, which is never
  negative, is passed to the accessors unchanged.
\<close>

definition int_of_unsigned :: "nat \<Rightarrow> int" where
  "int_of_unsigned n =
     (let u = int n mod 2 ^ 32 in if u < 2 ^ 31 then u else u - 2 ^ 32)"

subsection \<open>MatrixTranspMultiplyAcc\<close>

definition MatrixTranspMultiplyAcc_GPU ::
  "Device_GPU \<Rightarrow> Tensor \<Rightarrow> Tensor \<Rightarrow> Tensor \<Rightarrow> 'a::{comm_monoid_add,monoid_mult} machine \<Rightarrow> 'a machine" where
  "MatrixTranspMultiplyAcc_GPU dev l r y s =
     (let max_b = int_of_unsigned (max (bd (d l)) (bd (d r))) in
      if bd (d l) = 1 \<and> bd (d y) = bd (d r)
      then cublasSgemm CUBLAS_OP_T CUBLAS_OP_N
             (rows (d y)) (cols (d y) * batch_elems (d y)) (rows (d l))
             kSCALAR_ONE
             (v l) (rows (d l))
             (v r) (rows (d r))
             kSCALAR_ONE (v y) (rows (d y)) s
      else for_upto (nat max_b) (\<lambda>b.
             cublasSgemm CUBLAS_OP_T CUBLAS_OP_N
               (rows (d y)) (cols (d y)) (rows (d l))
               kSCALAR_ONE
               (batch_ptr l b) (rows (d l))
               (batch_ptr r b) (rows (d r))
               kSCALAR_ONE (batch_ptr y b) (rows (d y))) s)"

definition MatrixTranspMultiplyAcc_CPU ::
  "Tensor \<Rightarrow> Tensor \<Rightarrow> Tensor \<Rightarrow> 'a::{comm_monoid_add,monoid_mult} machine \<Rightarrow> 'a machine option" where
  "MatrixTranspMultiplyAcc_CPU l r y s =
     (let max_b = int_of_unsigned (max (bd (d l)) (bd (d r))) in
      if bd (d l) = 1 \<and> bd (d y) = bd (d r)
      then noalias_add_assign (colbatch_matrix y)
             (Product (Transpose (Ref (deref l))) (Ref (colbatch_matrix r))) s
      else for_upto_opt (nat max_b) (\<lambda>b.
             noalias_add_assign (batch_matrix y b)
               (Product (Transpose (Ref (batch_matrix l b))) (Ref (batch_matrix r b)))) s)"

subsection \<open>MatrixMultiplyTranspAcc\<close>

definition MatrixMultiplyTranspAcc_GPU ::
  "Device_GPU \<Rightarrow> Tensor \<Rightarrow> Tensor \<Rightarrow> Tensor \<Rightarrow> 'a::{comm_monoid_add,monoid_mult} machine \<Rightarrow> 'a machine" where
  "MatrixMultiplyTranspAcc_GPU dev l r y s =
     (let max_b = int_of_unsigned (max (bd (d l)) (bd (d r))) in
      if bd (d y) = 1 \<and> bd (d l) = bd (d r)
      then cublasSgemm CUBLAS_OP_N CUBLAS_OP_T
             (rows (d y)) (cols (d y)) (cols (d l) * batch_elems (d l))
             kSCALAR_ONE
             (v l) (rows (d l))
             (v r) (rows (d r))
             kSCALAR_ONE (v y) (rows (d y)) s
      else for_upto (nat max_b) (\<lambda>b.
             cublasSgemm CUBLAS_OP_N CUBLAS_OP_T
               (rows (d y)) (cols (d y)) (cols (d l))
               kSCALAR_ONE
               (batch_ptr l b) (rows (d l))
               (batch_ptr r b) (rows (d r))
               kSCALAR_ONE (batch_ptr y b) (rows (d y))) s)"

definition MatrixMultiplyTranspAcc_CPU ::
  "Tensor \<Rightarrow> Tensor \<Rightarrow> Tensor \<Rightarrow> 'a::{comm_monoid_add,monoid_mult} machine \<Rightarrow> 'a machine option" where
  "MatrixMultiplyTranspAcc_CPU l r y s =
     (let max_b = int_of_unsigned (max (bd (d l)) (bd (d r))) in
      if bd (d y) = 1 \<and> bd (d l) = bd (d r)
      then noalias_add_assign (deref y)
             (Product (Ref (colbatch_matrix l)) (Transpose (Ref (colbatch_matrix r)))) s
      else for_upto_opt (nat max_b) (\<lambda>b.
             noalias_add_assign (batch_matrix y b)
               (Product (Ref (batch_matrix l b)) (Transpose (Ref (batch_matrix r b))))) s)"

section \<open>Vocabulary of the statements\<close>

subsection \<open>Buffers and elements\<close>

text \<open>
  The buffer of a tensor is the address range of all its batch elements. Two tensors do
  not overlap when their buffers are disjoint ranges. \<open>elem_addr t b i j\<close> is the
  address of element \<open>(i, j)\<close> of batch element \<open>b\<close> of \<open>t\<close> (column-major inside
  the batch element; the batch index is taken modulo the batch count, as \<open>batch_ptr\<close>
  does, so that for a tensor with one batch element every \<open>b\<close> names that element).
\<close>

definition in_buf :: "Tensor \<Rightarrow> nat \<Rightarrow> bool" where
  "in_buf t x = (v t \<le> x \<and> x < v t + tensor_size t)"

definition no_overlap :: "Tensor \<Rightarrow> Tensor \<Rightarrow> bool" where
  "no_overlap a b = (v a + tensor_size a \<le> v b \<or> v b + tensor_size b \<le> v a)"

definition elem_addr :: "Tensor \<Rightarrow> nat \<Rightarrow> nat \<Rightarrow> nat \<Rightarrow> nat" where
  "elem_addr t b i j = batch_ptr t b + i + j * rows (d t)"

text \<open>
  Element \<open>(i, j)\<close> of the three matrix products, read from a store: \<open>L[bl] \<cdot> R[br]\<close>,
  \<open>L[bl]\<^sup>T \<cdot> R[br]\<close> and \<open>L[bl] \<cdot> R[br]\<^sup>T\<close>.
\<close>

definition prod_elem ::
  "(nat \<Rightarrow> 'a::{comm_monoid_add,monoid_mult}) \<Rightarrow> Tensor \<Rightarrow> nat \<Rightarrow> Tensor \<Rightarrow> nat \<Rightarrow> nat \<Rightarrow> nat \<Rightarrow> 'a" where
  "prod_elem st l bl r br i j =
     (\<Sum>p<cols (d l). st (elem_addr l bl i p) * st (elem_addr r br p j))"

definition prod_elem_TN ::
  "(nat \<Rightarrow> 'a::{comm_monoid_add,monoid_mult}) \<Rightarrow> Tensor \<Rightarrow> nat \<Rightarrow> Tensor \<Rightarrow> nat \<Rightarrow> nat \<Rightarrow> nat \<Rightarrow> 'a" where
  "prod_elem_TN st l bl r br i j =
     (\<Sum>p<rows (d l). st (elem_addr l bl p i) * st (elem_addr r br p j))"

definition prod_elem_NT ::
  "(nat \<Rightarrow> 'a::{comm_monoid_add,monoid_mult}) \<Rightarrow> Tensor \<Rightarrow> nat \<Rightarrow> Tensor \<Rightarrow> nat \<Rightarrow> nat \<Rightarrow> nat \<Rightarrow> 'a" where
  "prod_elem_NT st l bl r br i j =
     (\<Sum>p<cols (d l). st (elem_addr l bl i p) * st (elem_addr r br j p))"

text \<open>
  The batch element of an operand that belongs to the batch index \<open>b\<close>: an operand with
  one batch element is shared by all indices, any other operand is read at \<open>b\<close>
  (section 3 of the specification). \<open>batch_sum_TN\<close> and \<open>batch_sum_NT\<close> are element
  \<open>(i, j)\<close> of the sum over \<open>b = 0, \<dots>, k - 1\<close> of the products
  \<open>L[b]\<^sup>T \<cdot> R[b]\<close> and \<open>L[b] \<cdot> R[b]\<^sup>T\<close>.
\<close>

definition batch_index :: "Tensor \<Rightarrow> nat \<Rightarrow> nat" where
  "batch_index t b = (if bd (d t) = 1 then 0 else b)"

definition batch_sum_TN ::
  "(nat \<Rightarrow> 'a::{comm_monoid_add,monoid_mult}) \<Rightarrow> Tensor \<Rightarrow> Tensor \<Rightarrow> nat \<Rightarrow> nat \<Rightarrow> nat \<Rightarrow> 'a" where
  "batch_sum_TN st l r k i j =
     (\<Sum>b<k. prod_elem_TN st l (batch_index l b) r (batch_index r b) i j)"

definition batch_sum_NT ::
  "(nat \<Rightarrow> 'a::{comm_monoid_add,monoid_mult}) \<Rightarrow> Tensor \<Rightarrow> Tensor \<Rightarrow> nat \<Rightarrow> nat \<Rightarrow> nat \<Rightarrow> 'a" where
  "batch_sum_NT st l r k i j =
     (\<Sum>b<k. prod_elem_NT st l (batch_index l b) r (batch_index r b) i j)"

subsection \<open>Preconditions of the entry points\<close>

text \<open>
  The preconditions of the forward multiply, as section 4.1 of the specification lists
  them, and the shape preconditions of the two transposed variants (sections 4.2, 4.3).
\<close>

definition MatrixMultiply_shapes :: "Tensor \<Rightarrow> Tensor \<Rightarrow> Tensor \<Rightarrow> bool" where
  "MatrixMultiply_shapes l r y =
     (cols (d l) = rows (d r) \<and> rows (d y) = rows (d l) \<and> cols (d y) = cols (d r) \<and>
      bd (d r) = bd (d y) \<and> (bd (d l) = 1 \<or> bd (d l) = bd (d y)))"

text \<open>The shape part of the preconditions of the forward multiply, without the batch counts.\<close>

definition MatrixMultiply_dims :: "Tensor \<Rightarrow> Tensor \<Rightarrow> Tensor \<Rightarrow> bool" where
  "MatrixMultiply_dims l r y =
     (cols (d l) = rows (d r) \<and> rows (d y) = rows (d l) \<and> cols (d y) = cols (d r))"

definition TranspMultiply_shapes :: "Tensor \<Rightarrow> Tensor \<Rightarrow> Tensor \<Rightarrow> bool" where
  "TranspMultiply_shapes l r y =
     (rows (d l) = rows (d r) \<and> rows (d y) = cols (d l) \<and> cols (d y) = cols (d r))"

definition MultiplyTransp_shapes :: "Tensor \<Rightarrow> Tensor \<Rightarrow> Tensor \<Rightarrow> bool" where
  "MultiplyTransp_shapes l r y =
     (cols (d l) = cols (d r) \<and> rows (d y) = rows (d l) \<and> cols (d y) = rows (d r))"

subsection \<open>The two versions of MatrixMultiply over one primitive\<close>

text \<open>
  The dispatch of \<^verbatim>\<open>MatrixMultiply\<close> written once over \<open>cublasSgemm\<close>, with the scalar
  applied to the old contents of the output as a parameter. The accelerator version is
  this function with the caller's scalar; the CPU version, on valid shapes, is the scaling
  of the output buffer followed by this function with scalar one (lemmas
  \<open>MatrixMultiply_GPU_sgemm\<close>, \<open>MatrixMultiply_CPU_sgemm\<close>).
\<close>

definition mm_sgemm ::
  "Tensor \<Rightarrow> Tensor \<Rightarrow> Tensor \<Rightarrow> 'a::{comm_monoid_add,monoid_mult} \<Rightarrow> 'a machine \<Rightarrow> 'a machine" where
  "mm_sgemm l r y be s =
     (if bd (d l) = 1 \<and> bd (d r) = bd (d y)
      then cublasSgemm CUBLAS_OP_N CUBLAS_OP_N
             (rows (d y)) (cols (d y) * batch_elems (d y)) (cols (d l))
             kSCALAR_ONE (v l) (rows (d l)) (v r) (rows (d r)) be (v y) (rows (d y)) s
      else for_upto (bd (d y)) (\<lambda>b.
             cublasSgemm CUBLAS_OP_N CUBLAS_OP_N
               (rows (d y)) (cols (d y)) (cols (d l))
               kSCALAR_ONE (batch_ptr l b) (rows (d l)) (batch_ptr r b) (rows (d r))
               be (batch_ptr y b) (rows (d y))) s)"

subsection \<open>The per-batch reference of the forward multiply\<close>

text \<open>
  Section 8 of the specification compares the wide-matrix path with "\<open>k\<close> independent
  single-matrix multiplies of \<open>L\<close> against each \<open>R[b]\<close>, each accumulated into \<open>Y[b]\<close>
  with the same \<open>\<alpha>\<close>". \<open>single_multiply\<close> is one such multiply on the store,
  \<open>Y[b] \<leftarrow> \<alpha> \<cdot> Y[b] + L \<cdot> R[b]\<close>; \<open>per_batch_multiply\<close> performs them for
  \<open>b = 0, \<dots>, k - 1\<close>, one after the other.
\<close>

definition single_multiply ::
  "'a::{comm_monoid_add,monoid_mult} \<Rightarrow> Tensor \<Rightarrow> Tensor \<Rightarrow> Tensor \<Rightarrow> nat \<Rightarrow> (nat \<Rightarrow> 'a) \<Rightarrow> (nat \<Rightarrow> 'a)" where
  "single_multiply al l r y b st =
     (\<lambda>x. if batch_ptr y b \<le> x \<and> x < batch_ptr y b + batch_size (d y)
          then al * st x
               + prod_elem st l 0 r b ((x - batch_ptr y b) mod rows (d y))
                                      ((x - batch_ptr y b) div rows (d y))
          else st x)"

definition per_batch_multiply ::
  "'a::{comm_monoid_add,monoid_mult} \<Rightarrow> Tensor \<Rightarrow> Tensor \<Rightarrow> Tensor \<Rightarrow> (nat \<Rightarrow> 'a) \<Rightarrow> (nat \<Rightarrow> 'a)" where
  "per_batch_multiply al l r y st = for_upto (bd (d y)) (single_multiply al l r y) st"

subsection \<open>Zeroing the output\<close>



subsection \<open>Agreement of two stores\<close>

text \<open>
  Two stores agree on a tensor when they hold the same element at every address of its
  buffer. \<open>in_bufs\<close> is the union of the buffers of the three tensors of a call.
\<close>

definition agree_on :: "Tensor \<Rightarrow> (nat \<Rightarrow> 'a) \<Rightarrow> (nat \<Rightarrow> 'a) \<Rightarrow> bool" where
  "agree_on t st st' = (\<forall>x\<in>{v t..<v t + tensor_size t}. st x = st' x)"

definition in_bufs :: "Tensor \<Rightarrow> Tensor \<Rightarrow> Tensor \<Rightarrow> nat \<Rightarrow> bool" where
  "in_bufs l r y x = (in_buf l x \<or> in_buf r x \<or> in_buf y x)"

subsection \<open>Concrete inputs\<close>

text \<open>
  A tensor from its sizes and address, and a machine whose store holds at every address
  the address itself (as an integer), with no call issued yet.
\<close>

definition mk_tensor :: "nat \<Rightarrow> nat \<Rightarrow> nat \<Rightarrow> nat \<Rightarrow> Tensor" where
  "mk_tensor m n b p = \<lparr>d = \<lparr>rows = m, cols = n, bd = b\<rparr>, v = p\<rparr>"

definition machine0 :: "int machine" where
  "machine0 = \<lparr>store = (\<lambda>x. int x), cur_device = 0, gemm_calls = 0\<rparr>"

text \<open>
  A second machine: the same elements at the addresses below 12, zero elsewhere, another
  device selected and seven calls issued before.
\<close>

definition machine1 :: "int machine" where
  "machine1 = \<lparr>store = (\<lambda>x. if x < 12 then int x else 0), cur_device = 3, gemm_calls = 7\<rparr>"

definition dev0 :: Device_GPU where
  "dev0 = \<lparr>cuda_device_id = 0\<rparr>"

text \<open>Forward multiply: \<open>L\<close> is 2 \<times> 2 with one batch element, \<open>R\<close> and \<open>Y\<close> are 2 \<times> 1 with two.\<close>

definition fwd_l :: Tensor where "fwd_l = mk_tensor 2 2 1 0"
definition fwd_r :: Tensor where "fwd_r = mk_tensor 2 1 2 4"
definition fwd_y :: Tensor where "fwd_y = mk_tensor 2 1 2 8"

text \<open>
  Right-transpose accumulate on the wide path: \<open>L\<close> and \<open>R\<close> are 2 \<times> 1 with two batch
  elements, \<open>Y\<close> is 2 \<times> 2 with one.
\<close>

definition rt_l :: Tensor where "rt_l = mk_tensor 2 1 2 0"
definition rt_r :: Tensor where "rt_r = mk_tensor 2 1 2 4"
definition rt_y :: Tensor where "rt_y = mk_tensor 2 2 1 8"

text \<open>
  Left-transpose accumulate with 1 \<times> 1 matrices: \<open>L\<close> and \<open>R\<close> with two batch elements,
  the output with one (\<open>lt_y\<close>) or with two (\<open>lt_y2\<close>).
\<close>

definition lt_l :: Tensor where "lt_l = mk_tensor 1 1 2 1"
definition lt_r :: Tensor where "lt_r = mk_tensor 1 1 2 3"
definition lt_y :: Tensor where "lt_y = mk_tensor 1 1 1 5"
definition lt_y2 :: Tensor where "lt_y2 = mk_tensor 1 1 2 5"

text \<open>Right-transpose accumulate on the looped path: \<open>R\<close> with one batch element.\<close>

definition lt_r1 :: Tensor where "lt_r1 = mk_tensor 1 1 1 3"

text \<open>
  The scenario of section 8 of the specification: \<open>L\<close> is 3 \<times> 4 with two batch elements,
  \<open>R\<close> is 3 \<times> 1 with two, \<open>Y\<close> is 4 \<times> 1 with one.
\<close>

definition sc_l :: Tensor where "sc_l = mk_tensor 3 4 2 0"
definition sc_r :: Tensor where "sc_r = mk_tensor 3 1 2 24"
definition sc_y :: Tensor where "sc_y = mk_tensor 4 1 1 30"

text \<open>
  The same scenario with the shapes of \<open>L\<close> and \<open>R\<close> adjusted to the right-transpose
  product: \<open>L\<close> is 4 \<times> 3 with two batch elements, \<open>R\<close> is 1 \<times> 3 with two; \<open>Y\<close> is
  \<open>sc_y\<close>.
\<close>

definition adj_l :: Tensor where "adj_l = mk_tensor 4 3 2 0"
definition adj_r :: Tensor where "adj_r = mk_tensor 1 3 2 24"

text \<open>
  A batch count that does not fit an \<^verbatim>\<open>int\<close>: 1 \<times> 1 matrices, \<open>L\<close> with \<open>2\<^sup>3\<^sup>1\<close>
  batch elements, \<open>R\<close> with one, the output with one (\<open>big_y\<close>) or with \<open>2\<^sup>3\<^sup>1\<close>
  (\<open>big_y2\<close>); and a machine whose store holds the number one at every address.
\<close>

definition big_l :: Tensor where "big_l = mk_tensor 1 1 2147483648 0"
definition big_r :: Tensor where "big_r = mk_tensor 1 1 1 2147483648"
definition big_y :: Tensor where "big_y = mk_tensor 1 1 1 2147483649"

definition machine_ones :: "int machine" where
  "machine_ones = \<lparr>store = (\<lambda>x. 1), cur_device = 0, gemm_calls = 0\<rparr>"

subsection \<open>Elements that are not numbers\<close>

text \<open>
  The \<^verbatim>\<open>float\<close> type of the source, as far as a statement about non-finite prior data
  needs it: an element is a finite number (taken exactly; an integer is enough here) or
  NaN. As in IEEE arithmetic, a sum or product with a NaN operand is NaN; in particular
  zero times NaN is NaN. \<open>machine_nan\<close> holds NaN in the first batch element of
  \<open>fwd_y\<close> (addresses 8 and 9) and the address itself everywhere else; \<open>machine_fin\<close>
  holds the address itself everywhere.
\<close>

datatype flt = Fin int | NaN



instantiation flt :: "{comm_monoid_add,monoid_mult}"
begin

definition zero_flt :: flt where
  "zero_flt = Fin 0"

definition one_flt :: flt where
  "one_flt = Fin 1"

definition plus_flt :: "flt \<Rightarrow> flt \<Rightarrow> flt" where
  "plus_flt x y =
     (case x of NaN \<Rightarrow> NaN | Fin m \<Rightarrow> (case y of NaN \<Rightarrow> NaN | Fin n \<Rightarrow> Fin (m + n)))"

definition times_flt :: "flt \<Rightarrow> flt \<Rightarrow> flt" where
  "times_flt x y =
     (case x of NaN \<Rightarrow> NaN | Fin m \<Rightarrow> (case y of NaN \<Rightarrow> NaN | Fin n \<Rightarrow> Fin (m * n)))"

instance
  by standard
     (simp_all add: plus_flt_def times_flt_def zero_flt_def one_flt_def algebra_simps
               split: flt.splits)

end

section \<open>Basic facts\<close>

lemma idx_less: "i < m \<Longrightarrow> j < n \<Longrightarrow> i + j * m < m * (n::nat)"
proof -
  assume a: "i < m" "j < n"
  have "i + j * m < m + j * m" using a by simp
  also have "\<dots> = m * Suc j" by simp
  also have "\<dots> \<le> m * n" using a by (intro mult_le_mono2) simp
  finally show ?thesis .
qed

lemma sgemm_store_at:
  assumes "i < m" "j < n"
  shows "store (cublasSgemm ta tb m n k al A lda B ldb be C m s) (C + i + j * m)
         = al * (\<Sum>p<k. store s (op_addr ta A lda i p) * store s (op_addr tb B ldb p j))
           + be * store s (C + i + j * m)"
  using assms by (simp add: cublasSgemm_def add.assoc)

lemma sgemm_store_outside:
  assumes "x < C \<or> C + m * n \<le> x"
  shows "store (cublasSgemm ta tb m n k al A lda B ldb be C m s) x = store s x"
proof (cases "m = 0")
  case True then show ?thesis by (simp add: cublasSgemm_def)
next
  case False
  then have "(x - C) div m < n \<longleftrightarrow> x - C < n * m" by (simp add: div_less_iff_less_mult)
  then show ?thesis using assms by (auto simp add: cublasSgemm_def mult.commute)
qed

lemma sgemm_fields [simp]:
  "gemm_calls (cublasSgemm ta tb m n k al A lda B ldb be C ldc s) = gemm_calls s + 1"
  "cur_device (cublasSgemm ta tb m n k al A lda B ldb be C ldc s) = cur_device s"
  by (simp_all add: cublasSgemm_def)

lemma block_decomp:
  assumes "x < m * n * (k::nat)"
  shows "\<exists>b<k. \<exists>i<m. \<exists>j<n. x = b * (m * n) + i + j * m"
proof -
  have pos: "0 < m" "0 < n" using assms by (cases m; cases n; simp)+
  let ?o = "x mod (m * n)"
  have "x div (m * n) < k" using assms pos by (simp add: div_less_iff_less_mult mult.commute)
  moreover have "?o mod m < m" using pos by simp
  moreover have "?o div m < n" using pos by (simp add: div_less_iff_less_mult mult.commute)
  moreover have "x = (x div (m * n)) * (m * n) + ?o mod m + (?o div m) * m"
  proof -
    have "?o = ?o mod m + (?o div m) * m" by (metis mod_div_mult_eq)
    moreover have "x = (x div (m * n)) * (m * n) + ?o" by (metis div_mult_mod_eq)
    ultimately show ?thesis by linarith
  qed
  ultimately show ?thesis by blast
qed

lemma eigen_eq_sgemm_NN:
  "noalias_add_assign (EigenMap C m n) (Product (Ref (EigenMap A m k)) (Ref (EigenMap B k n))) s
   = Some (cublasSgemm CUBLAS_OP_N CUBLAS_OP_N m n k kSCALAR_ONE A m B k kSCALAR_ONE C m s)"
proof -
  have "(C \<le> x \<and> x < C + m * n) = (C \<le> x \<and> (x - C) mod m < m \<and> (x - C) div m < n)" for x
    by (cases "m = 0") (auto simp add: div_less_iff_less_mult mult.commute)
  then show ?thesis
    unfolding noalias_add_assign_def cublasSgemm_def kSCALAR_ONE_def op_addr_def
    by (simp add: add.commute[of "store s _"] cong: if_cong)
qed

lemma eigen_eq_sgemm_TN:
  "noalias_add_assign (EigenMap C m n)
     (Product (Transpose (Ref (EigenMap A k m))) (Ref (EigenMap B k n))) s
   = Some (cublasSgemm CUBLAS_OP_T CUBLAS_OP_N m n k kSCALAR_ONE A k B k kSCALAR_ONE C m s)"
proof -
  have "(C \<le> x \<and> x < C + m * n) = (C \<le> x \<and> (x - C) mod m < m \<and> (x - C) div m < n)" for x
    by (cases "m = 0") (auto simp add: div_less_iff_less_mult mult.commute)
  then show ?thesis
    unfolding noalias_add_assign_def cublasSgemm_def kSCALAR_ONE_def op_addr_def
    by (simp add: add.commute[of "store s _"] cong: if_cong)
qed

lemma eigen_eq_sgemm_NT:
  "noalias_add_assign (EigenMap C m n)
     (Product (Ref (EigenMap A m k)) (Transpose (Ref (EigenMap B n k)))) s
   = Some (cublasSgemm CUBLAS_OP_N CUBLAS_OP_T m n k kSCALAR_ONE A m B n kSCALAR_ONE C m s)"
proof -
  have "(C \<le> x \<and> x < C + m * n) = (C \<le> x \<and> (x - C) mod m < m \<and> (x - C) div m < n)" for x
    by (cases "m = 0") (auto simp add: div_less_iff_less_mult mult.commute)
  then show ?thesis
    unfolding noalias_add_assign_def cublasSgemm_def kSCALAR_ONE_def op_addr_def
    by (simp add: add.commute[of "store s _"] cong: if_cong)
qed

lemma for_upto_opt_Some:
  assumes "\<And>b s. b < n \<Longrightarrow> body b s = Some (body' b s)"
  shows "for_upto_opt n body s = Some (for_upto n body' s)"
  using assms by (induction n) simp_all

lemma elem_in_buf:
  assumes "0 < bd (d t)" "i < rows (d t)" "j < cols (d t)"
  shows "in_buf t (batch_ptr t b + i + j * rows (d t))"
proof -
  let ?sz = "rows (d t) * cols (d t)"
  have "i + j * rows (d t) < ?sz" using assms by (simp add: idx_less)
  moreover have "Suc (b mod bd (d t)) * ?sz \<le> bd (d t) * ?sz"
    using assms(1) by (intro mult_le_mono1) (simp add: Suc_le_eq)
  ultimately show ?thesis
    by (simp add: in_buf_def batch_ptr_def tensor_size_def batch_size_def batch_elems_def
                  mult.commute)
qed

lemma wide_in_buf:
  assumes "i < rows (d t)" "j < cols (d t) * bd (d t)"
  shows "in_buf t (v t + i + j * rows (d t))"
  using idx_less[OF assms]
  by (simp add: in_buf_def tensor_size_def batch_size_def batch_elems_def mult.assoc)

lemma no_overlap_not_in_buf:
  "no_overlap t y \<Longrightarrow> in_buf t x \<Longrightarrow> \<not> in_buf y x"
  by (auto simp add: no_overlap_def in_buf_def)

lemma batch_ptr_less: "b < bd (d t) \<Longrightarrow> batch_ptr t b = v t + b * batch_size (d t)"
  by (simp add: batch_ptr_def)

lemma sgemm_loop_distinct:
  fixes al be :: "'a::{comm_monoid_add,monoid_mult}"
  assumes rA: "\<And>b i p. b < n \<Longrightarrow> i < rows (d y) \<Longrightarrow> p < k \<Longrightarrow>
                 \<not> in_buf y (op_addr ta (batch_ptr l b) lda i p)"
      and rB: "\<And>b p j. b < n \<Longrightarrow> p < k \<Longrightarrow> j < cols (d y) \<Longrightarrow>
                 \<not> in_buf y (op_addr tb (batch_ptr r b) ldb p j)"
      and n: "n \<le> bd (d y)"
  defines "body \<equiv> \<lambda>b. cublasSgemm ta tb (rows (d y)) (cols (d y)) k al
                          (batch_ptr l b) lda (batch_ptr r b) ldb be
                          (batch_ptr y b) (rows (d y))"
  shows "(\<forall>b<n. \<forall>i<rows (d y). \<forall>j<cols (d y).
            store (for_upto n body s) (batch_ptr y b + i + j * rows (d y))
            = al * (\<Sum>p<k. store s (op_addr ta (batch_ptr l b) lda i p)
                            * store s (op_addr tb (batch_ptr r b) ldb p j))
              + be * store s (batch_ptr y b + i + j * rows (d y)))
       \<and> (\<forall>x. x < v y \<or> v y + n * batch_size (d y) \<le> x \<longrightarrow>
               store (for_upto n body s) x = store s x)"
  using rA rB n
proof (induction n)
  case 0
  show ?case by simp
next
  case (Suc n)
  let ?sz = "batch_size (d y)"
  let ?m = "rows (d y)"
  let ?s = "for_upto n body s"
  have nbd: "n < bd (d y)" using Suc.prems(3) by simp
  have IH: "(\<forall>b<n. \<forall>i<?m. \<forall>j<cols (d y).
            store ?s (batch_ptr y b + i + j * ?m)
            = al * (\<Sum>p<k. store s (op_addr ta (batch_ptr l b) lda i p)
                            * store s (op_addr tb (batch_ptr r b) ldb p j))
              + be * store s (batch_ptr y b + i + j * ?m))"
    and IHout: "\<And>x. x < v y \<or> v y + n * ?sz \<le> x \<Longrightarrow> store ?s x = store s x"
    using Suc.IH Suc.prems nbd by auto
  have pn: "batch_ptr y n = v y + n * ?sz" using nbd by (simp add: batch_ptr_less)
  have keep: "store ?s x = store s x" if "\<not> in_buf y x" for x
  proof -
    have le: "n * ?sz \<le> bd (d y) * ?sz" using nbd by (intro mult_le_mono1) simp
    have "x < v y \<or> v y + bd (d y) * ?sz \<le> x"
      using that by (auto simp add: in_buf_def tensor_size_def batch_elems_def mult.commute)
    with le have "x < v y \<or> v y + n * ?sz \<le> x" by linarith
    then show ?thesis by (rule IHout)
  qed
  have step: "for_upto (Suc n) body s
              = cublasSgemm ta tb ?m (cols (d y)) k al (batch_ptr l n) lda (batch_ptr r n) ldb be
                  (batch_ptr y n) ?m ?s"
    by (simp add: body_def)
  show ?case
  proof (intro conjI allI impI)
    fix b i j assume b: "b < Suc n" and i: "i < ?m" and j: "j < cols (d y)"
    have ij: "i + j * ?m < ?sz" using i j by (simp add: idx_less batch_size_def)
    show "store (for_upto (Suc n) body s) (batch_ptr y b + i + j * ?m)
            = al * (\<Sum>p<k. store s (op_addr ta (batch_ptr l b) lda i p)
                            * store s (op_addr tb (batch_ptr r b) ldb p j))
              + be * store s (batch_ptr y b + i + j * ?m)"
    proof (cases "b = n")
      case True
      have A: "store ?s (op_addr ta (batch_ptr l n) lda i p) = store s (op_addr ta (batch_ptr l n) lda i p)"
        if "p < k" for p using that i Suc.prems(1)[of n i p] by (intro keep) simp
      have B: "store ?s (op_addr tb (batch_ptr r n) ldb p j) = store s (op_addr tb (batch_ptr r n) ldb p j)"
        if "p < k" for p using that j Suc.prems(2)[of n p j] by (intro keep) simp
      have Y: "store ?s (batch_ptr y n + i + j * ?m) = store s (batch_ptr y n + i + j * ?m)"
        by (intro IHout) (simp add: pn)
      show ?thesis unfolding step True
        by (simp add: sgemm_store_at[OF i j] A B Y)
    next
      case False
      then have bn: "b < n" using b by simp
      then have pb: "batch_ptr y b = v y + b * ?sz" using nbd by (simp add: batch_ptr_less)
      have "Suc b * ?sz \<le> n * ?sz" using bn by (intro mult_le_mono1) simp
      then have "batch_ptr y b + i + j * ?m < batch_ptr y n" using ij by (simp add: pb pn)
      then have "store (for_upto (Suc n) body s) (batch_ptr y b + i + j * ?m)
                 = store ?s (batch_ptr y b + i + j * ?m)"
        unfolding step by (intro sgemm_store_outside) simp
      then show ?thesis using IH bn i j by simp
    qed
  next
    fix x assume x: "x < v y \<or> v y + Suc n * ?sz \<le> x"
    then have "x < batch_ptr y n \<or> batch_ptr y n + ?m * cols (d y) \<le> x"
      by (auto simp add: pn batch_size_def)
    then have "store (for_upto (Suc n) body s) x = store ?s x"
      unfolding step by (rule sgemm_store_outside)
    moreover have "store ?s x = store s x" using x by (intro IHout) auto
    ultimately show "store (for_upto (Suc n) body s) x = store s x" by simp
  qed
qed

lemma scale_tbvec_store:
  "store (scale_tbvec a y s) x = (if in_buf y x then a * store s x else store s x)"
  by (simp add: scale_tbvec_def in_buf_def)

lemma scale_tbvec_fields [simp]:
  "gemm_calls (scale_tbvec a y s) = gemm_calls s"
  "cur_device (scale_tbvec a y s) = cur_device s"
  by (simp_all add: scale_tbvec_def)

lemma MatrixMultiply_GPU_sgemm:
  "MatrixMultiply_GPU dev l r y al s = mm_sgemm l r y al (cudaSetDevice (cuda_device_id dev) s)"
  by (simp add: MatrixMultiply_GPU_def mm_sgemm_def Let_def)

lemma MatrixMultiply_CPU_sgemm:
  assumes "MatrixMultiply_shapes l r y"
  shows "MatrixMultiply_CPU l r y al s = Some (mm_sgemm l r y kSCALAR_ONE (scale_tbvec al y s))"
proof (cases "bd (d l) = 1 \<and> bd (d r) = bd (d y)")
  case True
  then show ?thesis using assms
    by (simp add: MatrixMultiply_CPU_def mm_sgemm_def Let_def MatrixMultiply_shapes_def
                  colbatch_matrix_def deref_def batch_elems_def eigen_eq_sgemm_NN)
next
  case False
  then show ?thesis using assms
    by (simp add: MatrixMultiply_CPU_def mm_sgemm_def Let_def MatrixMultiply_shapes_def
                  batch_matrix_def eigen_eq_sgemm_NN for_upto_opt_Some)
qed

lemma wide_addr:
  "b < bd (d t) \<Longrightarrow> elem_addr t b i j = v t + i + (b * cols (d t) + j) * rows (d t)"
  by (simp add: elem_addr_def batch_ptr_less batch_size_def algebra_simps)

lemma mm_sgemm_post:
  fixes be :: "'a::{comm_monoid_add,monoid_mult}"
  assumes sh: "MatrixMultiply_shapes l r y" and nl: "no_overlap l y" and nr: "no_overlap r y"
      and b: "b < bd (d y)" and i: "i < rows (d y)" and j: "j < cols (d y)"
  shows "store (mm_sgemm l r y be s) (elem_addr y b i j)
         = (\<Sum>p<cols (d l). store s (elem_addr l (if 1 < bd (d l) then b else 0) i p)
                            * store s (elem_addr r b p j))
           + be * store s (elem_addr y b i j)"
proof (cases "bd (d l) = 1 \<and> bd (d r) = bd (d y)")
  case True
  have J: "b * cols (d y) + j < cols (d y) * batch_elems (d y)"
    using idx_less[OF j b] by (simp add: batch_elems_def add.commute)
  have r: "elem_addr r b p j = v r + p + (b * cols (d y) + j) * rows (d r)" for p
    using sh b by (simp add: wide_addr MatrixMultiply_shapes_def)
  have l: "elem_addr l 0 i p = v l + i + p * rows (d l)" for p
    by (simp add: elem_addr_def batch_ptr_def)
  show ?thesis using True
    by (simp add: mm_sgemm_def wide_addr[OF b] sgemm_store_at[OF i J] op_addr_def r l
                  kSCALAR_ONE_def)
next
  case False
  then have bl: "bd (d l) = bd (d y)" "bd (d l) \<noteq> 1" "bd (d r) = bd (d y)"
    using sh by (auto simp add: MatrixMultiply_shapes_def)
  have rA: "\<not> in_buf y (op_addr CUBLAS_OP_N (batch_ptr l b') (rows (d l)) i' p)"
    if "b' < bd (d y)" "i' < rows (d y)" "p < cols (d l)" for b' i' p
    using that sh bl elem_in_buf[of l i' p b'] no_overlap_not_in_buf[OF nl]
    by (simp add: op_addr_def MatrixMultiply_shapes_def)
  have rB: "\<not> in_buf y (op_addr CUBLAS_OP_N (batch_ptr r b') (rows (d r)) p j')"
    if "b' < bd (d y)" "p < cols (d l)" "j' < cols (d y)" for b' p j'
    using that sh bl elem_in_buf[of r p j' b'] no_overlap_not_in_buf[OF nr]
    by (simp add: op_addr_def MatrixMultiply_shapes_def)
  have "1 < bd (d l)" using bl b by simp
  then show ?thesis
    using False sgemm_loop_distinct[where n="bd (d y)" and y=y and l=l and r=r
            and ta=CUBLAS_OP_N and tb=CUBLAS_OP_N and k="cols (d l)" and lda="rows (d l)"
            and ldb="rows (d r)" and al=kSCALAR_ONE and be=be and s=s, OF rA rB] b i j
    by (simp add: mm_sgemm_def elem_addr_def op_addr_def kSCALAR_ONE_def)
qed

lemma elem_addr_in_buf:
  "0 < bd (d t) \<Longrightarrow> i < rows (d t) \<Longrightarrow> j < cols (d t) \<Longrightarrow> in_buf t (elem_addr t b i j)"
  by (simp add: elem_addr_def elem_in_buf)

lemma cudaSetDevice_store [simp]: "store (cudaSetDevice k s) = store s"
  by (simp add: cudaSetDevice_def)

lemma block_in_buf:
  assumes "0 < bd (d y)" "\<not> in_buf y x"
  shows "x < batch_ptr y b \<or> batch_ptr y b + rows (d y) * cols (d y) \<le> x"
proof -
  let ?sz = "rows (d y) * cols (d y)"
  have "Suc (b mod bd (d y)) * ?sz \<le> bd (d y) * ?sz"
    using assms(1) by (intro mult_le_mono1) (simp add: Suc_le_eq)
  then have "batch_ptr y b + ?sz \<le> v y + bd (d y) * ?sz"
    by (simp add: batch_ptr_def batch_size_def)
  moreover have "v y \<le> batch_ptr y b" by (simp add: batch_ptr_def)
  moreover have "x < v y \<or> v y + bd (d y) * ?sz \<le> x"
    using assms(2) by (auto simp add: in_buf_def tensor_size_def batch_size_def batch_elems_def mult.commute)
  ultimately show ?thesis by linarith
qed

lemma sgemm_loop_frame:
  assumes "0 < bd (d y)" "\<not> in_buf y x"
  shows "store (for_upto n (\<lambda>b. cublasSgemm ta tb (rows (d y)) (cols (d y)) k al
                          (pa b) lda (pb b) ldb be (batch_ptr y b) (rows (d y))) s) x
         = store s x"
  by (induction n) (simp_all add: sgemm_store_outside[OF block_in_buf[OF assms]])

lemma wide_frame:
  assumes "\<not> in_buf y x"
  shows "store (cublasSgemm ta tb (rows (d y)) (cols (d y) * batch_elems (d y)) k al
                   A lda B ldb be (v y) (rows (d y)) s) x = store s x"
  using assms
  by (intro sgemm_store_outside)
     (auto simp add: in_buf_def tensor_size_def batch_size_def mult.assoc)

lemma mm_sgemm_frame:
  assumes "\<not> in_buf y x"
  shows "store (mm_sgemm l r y be s) x = store s x"
proof (cases "bd (d y) = 0")
  case True
  then show ?thesis using assms
    by (simp add: mm_sgemm_def wide_frame)
next
  case False
  then show ?thesis using assms
    by (simp add: mm_sgemm_def wide_frame sgemm_loop_frame)
qed

lemma store_eqI:
  assumes out: "\<And>x. \<not> in_buf y x \<Longrightarrow> f x = g x"
      and inn: "\<And>b i j. b < bd (d y) \<Longrightarrow> i < rows (d y) \<Longrightarrow> j < cols (d y) \<Longrightarrow>
                  f (elem_addr y b i j) = g (elem_addr y b i j)"
  shows "f = g"
proof
  fix x
  show "f x = g x"
  proof (cases "in_buf y x")
    case False then show ?thesis by (rule out)
  next
    case True
    then have "x - v y < rows (d y) * cols (d y) * bd (d y)" and vx: "v y \<le> x"
      by (auto simp add: in_buf_def tensor_size_def batch_size_def batch_elems_def)
    from block_decomp[OF this(1)] obtain b i j where
      b: "b < bd (d y)" and i: "i < rows (d y)" and j: "j < cols (d y)"
      and x: "x - v y = b * (rows (d y) * cols (d y)) + i + j * rows (d y)" by blast
    have "x = elem_addr y b i j"
      using x vx b by (simp add: elem_addr_def batch_ptr_less batch_size_def)
    then show ?thesis using inn[OF b i j] by simp
  qed
qed

section \<open>Forward multiply: both versions element by element\<close>

lemma MatrixMultiply_CPU_post:
  fixes al :: "'a::{comm_monoid_add,monoid_mult}"
  assumes sh: "MatrixMultiply_shapes l r y" and nl: "no_overlap l y" and nr: "no_overlap r y"
      and b: "b < bd (d y)" and i: "i < rows (d y)" and j: "j < cols (d y)"
  shows "store (mm_sgemm l r y kSCALAR_ONE (scale_tbvec al y s)) (elem_addr y b i j)
         = al * store s (elem_addr y b i j)
           + prod_elem (store s) l (if 1 < bd (d l) then b else 0) r b i j"
proof -
  define b' where "b' = (if 1 < bd (d l) then b else 0)"
  have sh': "rows (d l) = rows (d y)" "cols (d r) = cols (d y)" "rows (d r) = cols (d l)"
           "bd (d r) = bd (d y)" "bd (d l) = 1 \<or> bd (d l) = bd (d y)"
    using sh by (auto simp add: MatrixMultiply_shapes_def)
  have bl: "0 < bd (d l)" using sh'(5) b by auto
  have L: "store (scale_tbvec al y s) (elem_addr l b' i p) = store s (elem_addr l b' i p)"
    if "p < cols (d l)" for p
    using no_overlap_not_in_buf[OF nl elem_addr_in_buf[of l i p b']] that i bl sh'
    by (simp add: scale_tbvec_store)
  have R: "store (scale_tbvec al y s) (elem_addr r b p j) = store s (elem_addr r b p j)"
    if "p < cols (d l)" for p
    using no_overlap_not_in_buf[OF nr elem_addr_in_buf[of r p j b]] that j b sh'
    by (simp add: scale_tbvec_store)
  have Y: "store (scale_tbvec al y s) (elem_addr y b i j) = al * store s (elem_addr y b i j)"
    using elem_addr_in_buf[of y i j b] b i j by (simp add: scale_tbvec_store)
  show ?thesis
    unfolding mm_sgemm_post[OF assms] prod_elem_def b'_def[symmetric]
    by (simp add: L R Y kSCALAR_ONE_def add.commute)
qed

lemma MatrixMultiply_GPU_post:
  fixes al :: "'a::{comm_monoid_add,monoid_mult}"
  assumes sh: "MatrixMultiply_shapes l r y" and nl: "no_overlap l y" and nr: "no_overlap r y"
      and b: "b < bd (d y)" and i: "i < rows (d y)" and j: "j < cols (d y)"
  shows "store (MatrixMultiply_GPU dev l r y al s) (elem_addr y b i j)
         = al * store s (elem_addr y b i j)
           + prod_elem (store s) l (if 1 < bd (d l) then b else 0) r b i j"
  unfolding MatrixMultiply_GPU_sgemm mm_sgemm_post[OF assms] prod_elem_def
  by (simp add: add.commute)

lemma MatrixMultiply_CPU_frame:
  "\<not> in_buf y x \<Longrightarrow> store (mm_sgemm l r y kSCALAR_ONE (scale_tbvec al y s)) x = store s x"
  by (simp add: mm_sgemm_frame scale_tbvec_store)

lemma MatrixMultiply_GPU_frame:
  "\<not> in_buf y x \<Longrightarrow> store (MatrixMultiply_GPU dev l r y al s) x = store s x"
  by (simp add: MatrixMultiply_GPU_sgemm mm_sgemm_frame)

lemma single_multiply_sgemm:
  fixes s :: "'a::{comm_monoid_add,monoid_mult} machine"
  shows "single_multiply al l r y b (store s)
   = store (cublasSgemm CUBLAS_OP_N CUBLAS_OP_N (rows (d y)) (cols (d y)) (cols (d l))
              kSCALAR_ONE (batch_ptr l 0) (rows (d l)) (batch_ptr r b) (rows (d r))
              al (batch_ptr y b) (rows (d y)) s)"
proof -
  let ?C = "batch_ptr y b" and ?m = "rows (d y)" and ?n = "cols (d y)"
  have "(?C \<le> x \<and> x < ?C + ?m * ?n) = (?C \<le> x \<and> (x - ?C) mod ?m < ?m \<and> (x - ?C) div ?m < ?n)" for x
    by (cases "?m = 0") (auto simp add: div_less_iff_less_mult mult.commute)
  then show ?thesis
    unfolding single_multiply_def cublasSgemm_def kSCALAR_ONE_def op_addr_def prod_elem_def
              elem_addr_def batch_size_def
    by (simp add: add.commute[of "al * _"] cong: if_cong)
qed

lemma per_batch_multiply_sgemm:
  fixes s :: "'a::{comm_monoid_add,monoid_mult} machine"
  shows "for_upto n (single_multiply al l r y) (store s)
   = store (for_upto n (\<lambda>b. cublasSgemm CUBLAS_OP_N CUBLAS_OP_N (rows (d y)) (cols (d y)) (cols (d l))
              kSCALAR_ONE (batch_ptr l 0) (rows (d l)) (batch_ptr r b) (rows (d r))
              al (batch_ptr y b) (rows (d y))) s)"
  by (induction n) (simp_all add: single_multiply_sgemm)

lemma per_batch_multiply_post:
  fixes al :: "'a::{comm_monoid_add,monoid_mult}" and s :: "'a machine"
  assumes sh: "MatrixMultiply_shapes l r y" and l1: "bd (d l) = 1"
      and nl: "no_overlap l y" and nr: "no_overlap r y"
      and b: "b < bd (d y)" and i: "i < rows (d y)" and j: "j < cols (d y)"
  shows "per_batch_multiply al l r y (store s) (elem_addr y b i j)
         = al * store s (elem_addr y b i j) + prod_elem (store s) l 0 r b i j"
proof -
  have l0: "batch_ptr l b' = v l" for b' using l1 by (simp add: batch_ptr_def)
  have rA: "\<not> in_buf y (op_addr CUBLAS_OP_N (batch_ptr l b') (rows (d l)) i' p)"
    if "b' < bd (d y)" "i' < rows (d y)" "p < cols (d l)" for b' i' p
    using that sh l1 elem_in_buf[of l i' p b'] no_overlap_not_in_buf[OF nl]
    by (simp add: op_addr_def MatrixMultiply_shapes_def)
  have rB: "\<not> in_buf y (op_addr CUBLAS_OP_N (batch_ptr r b') (rows (d r)) p j')"
    if "b' < bd (d y)" "p < cols (d l)" "j' < cols (d y)" for b' p j'
    using that sh elem_in_buf[of r p j' b'] no_overlap_not_in_buf[OF nr]
    by (simp add: op_addr_def MatrixMultiply_shapes_def)
  have "store (for_upto (bd (d y)) (\<lambda>b. cublasSgemm CUBLAS_OP_N CUBLAS_OP_N (rows (d y)) (cols (d y))
              (cols (d l)) kSCALAR_ONE (batch_ptr l b) (rows (d l)) (batch_ptr r b) (rows (d r))
              al (batch_ptr y b) (rows (d y))) s) (batch_ptr y b + i + j * rows (d y))
        = kSCALAR_ONE * (\<Sum>p<cols (d l). store s (op_addr CUBLAS_OP_N (batch_ptr l b) (rows (d l)) i p)
                            * store s (op_addr CUBLAS_OP_N (batch_ptr r b) (rows (d r)) p j))
              + al * store s (batch_ptr y b + i + j * rows (d y))"
    using sgemm_loop_distinct[where n="bd (d y)" and y=y and l=l and r=r
            and ta=CUBLAS_OP_N and tb=CUBLAS_OP_N and k="cols (d l)" and lda="rows (d l)"
            and ldb="rows (d r)" and al=kSCALAR_ONE and be=al and s=s, OF rA rB] b i j
    by blast
  then show ?thesis
    unfolding per_batch_multiply_def per_batch_multiply_sgemm l0 elem_addr_def op_addr_def
              prod_elem_def kSCALAR_ONE_def
    by (simp add: add.commute[of "al * _"])
qed

lemma per_batch_multiply_frame:
  fixes s :: "'a::{comm_monoid_add,monoid_mult} machine"
  assumes "\<not> in_buf y x"
  shows "per_batch_multiply al l r y (store s) x = store s x"
proof (cases "bd (d y) = 0")
  case True then show ?thesis by (simp add: per_batch_multiply_def)
next
  case False
  then show ?thesis using assms
    by (simp add: per_batch_multiply_def per_batch_multiply_sgemm sgemm_loop_frame)
qed

lemma mm_sgemm_calls_wide:
  "bd (d l) = 1 \<Longrightarrow> bd (d r) = bd (d y) \<Longrightarrow> gemm_calls (mm_sgemm l r y be s) = gemm_calls s + 1"
  by (simp add: mm_sgemm_def)

lemma fwd_hyps:
  "MatrixMultiply_shapes fwd_l fwd_r fwd_y" "no_overlap fwd_l fwd_y" "no_overlap fwd_r fwd_y"
  "bd (d fwd_l) = 1" "1 < bd (d fwd_y)"
  by (simp_all add: MatrixMultiply_shapes_def no_overlap_def fwd_l_def fwd_r_def fwd_y_def
          mk_tensor_def tensor_size_def batch_size_def batch_elems_def)

section \<open>The transposed variants element by element\<close>

lemma MatrixTranspMultiplyAcc_CPU_GPU:
  assumes "TranspMultiply_shapes l r y"
  shows "MatrixTranspMultiplyAcc_CPU l r y s = Some (MatrixTranspMultiplyAcc_GPU dev l r y s)"
proof (cases "bd (d l) = 1 \<and> bd (d y) = bd (d r)")
  case True
  show ?thesis
    unfolding MatrixTranspMultiplyAcc_CPU_def MatrixTranspMultiplyAcc_GPU_def Let_def if_P[OF True]
    using assms True
    by (simp add: TranspMultiply_shapes_def colbatch_matrix_def deref_def batch_elems_def
                  eigen_eq_sgemm_TN)
next
  case False
  show ?thesis
    unfolding MatrixTranspMultiplyAcc_CPU_def MatrixTranspMultiplyAcc_GPU_def Let_def
              if_not_P[OF False]
    using assms
    by (intro for_upto_opt_Some)
       (simp add: TranspMultiply_shapes_def batch_matrix_def eigen_eq_sgemm_TN)
qed

lemma MatrixMultiplyTranspAcc_CPU_GPU:
  assumes "MultiplyTransp_shapes l r y"
  shows "MatrixMultiplyTranspAcc_CPU l r y s = Some (MatrixMultiplyTranspAcc_GPU dev l r y s)"
proof (cases "bd (d y) = 1 \<and> bd (d l) = bd (d r)")
  case True
  show ?thesis
    unfolding MatrixMultiplyTranspAcc_CPU_def MatrixMultiplyTranspAcc_GPU_def Let_def if_P[OF True]
    using assms True
    by (simp add: MultiplyTransp_shapes_def colbatch_matrix_def deref_def batch_elems_def
                  eigen_eq_sgemm_NT)
next
  case False
  show ?thesis
    unfolding MatrixMultiplyTranspAcc_CPU_def MatrixMultiplyTranspAcc_GPU_def Let_def
              if_not_P[OF False]
    using assms
    by (intro for_upto_opt_Some)
       (simp add: MultiplyTransp_shapes_def batch_matrix_def eigen_eq_sgemm_NT)
qed

lemma int_of_unsigned_small:
  assumes "n < 2 ^ 31"
  shows "nat (int_of_unsigned n) = n"
proof -
  have "int n < 2 ^ 31" using assms by (simp flip: of_nat_less_iff)
  then have "int n mod 2 ^ 32 = int n" by simp
  then show ?thesis using \<open>int n < 2 ^ 31\<close> by (simp add: int_of_unsigned_def)
qed

lemma for_upto_calls:
  "gemm_calls (for_upto n (\<lambda>b. cublasSgemm ta tb m nn k al (pa b) lda (pb b) ldb be (pc b) ldc) s)
   = gemm_calls s + n"
  by (induction n) simp_all

lemma sgemm_loop_single:
  fixes s :: "'a::{comm_monoid_add,monoid_mult} machine"
  assumes rA: "\<And>b i p. b < n \<Longrightarrow> i < rows (d y) \<Longrightarrow> p < k \<Longrightarrow>
                 \<not> in_buf y (op_addr ta (batch_ptr l b) lda i p)"
      and rB: "\<And>b p j. b < n \<Longrightarrow> p < k \<Longrightarrow> j < cols (d y) \<Longrightarrow>
                 \<not> in_buf y (op_addr tb (batch_ptr r b) ldb p j)"
      and y1: "bd (d y) = 1" and i: "i < rows (d y)" and j: "j < cols (d y)"
  defines "body \<equiv> \<lambda>b. cublasSgemm ta tb (rows (d y)) (cols (d y)) k kSCALAR_ONE
                          (batch_ptr l b) lda (batch_ptr r b) ldb kSCALAR_ONE
                          (batch_ptr y b) (rows (d y))"
  shows "store (for_upto n body s) (v y + i + j * rows (d y))
         = store s (v y + i + j * rows (d y))
           + (\<Sum>b<n. \<Sum>p<k. store s (op_addr ta (batch_ptr l b) lda i p)
                              * store s (op_addr tb (batch_ptr r b) ldb p j))"
  using rA rB
proof (induction n)
  case 0
  show ?case by simp
next
  case (Suc n)
  have yb: "batch_ptr y b = v y" for b using y1 by (simp add: batch_ptr_def)
  have pos: "0 < bd (d y)" using y1 by simp
  have keep: "store (for_upto n body s) x = store s x" if "\<not> in_buf y x" for x
    unfolding body_def using pos that by (rule sgemm_loop_frame)
  have A: "store (for_upto n body s) (op_addr ta (batch_ptr l n) lda i p)
           = store s (op_addr ta (batch_ptr l n) lda i p)" if "p < k" for p
    using that i Suc.prems(1)[of n i p] by (intro keep) simp
  have B: "store (for_upto n body s) (op_addr tb (batch_ptr r n) ldb p j)
           = store s (op_addr tb (batch_ptr r n) ldb p j)" if "p < k" for p
    using that j Suc.prems(2)[of n p j] by (intro keep) simp
  have IH: "store (for_upto n body s) (v y + i + j * rows (d y))
         = store s (v y + i + j * rows (d y))
           + (\<Sum>b<n. \<Sum>p<k. store s (op_addr ta (batch_ptr l b) lda i p)
                              * store s (op_addr tb (batch_ptr r b) ldb p j))"
    using Suc.IH Suc.prems by simp
  have "store (for_upto (Suc n) body s) (v y + i + j * rows (d y))
        = kSCALAR_ONE * (\<Sum>p<k. store (for_upto n body s) (op_addr ta (batch_ptr l n) lda i p)
                              * store (for_upto n body s) (op_addr tb (batch_ptr r n) ldb p j))
          + kSCALAR_ONE * store (for_upto n body s) (v y + i + j * rows (d y))"
    by (simp add: body_def yb sgemm_store_at[OF i j])
  also have "\<dots> = (\<Sum>p<k. store s (op_addr ta (batch_ptr l n) lda i p)
                              * store s (op_addr tb (batch_ptr r n) ldb p j))
          + store (for_upto n body s) (v y + i + j * rows (d y))"
    by (simp add: A B kSCALAR_ONE_def)
  finally have fin: "store (for_upto (Suc n) body s) (v y + i + j * rows (d y))
        = (\<Sum>p<k. store s (op_addr ta (batch_ptr l n) lda i p)
                              * store s (op_addr tb (batch_ptr r n) ldb p j))
          + store (for_upto n body s) (v y + i + j * rows (d y))" .
  show ?case unfolding fin IH by (simp add: ac_simps)
qed

lemma sum_regroup:
  fixes f :: "nat \<Rightarrow> 'a::comm_monoid_add"
  shows "(\<Sum>q<n * k. f q) = (\<Sum>b<k. \<Sum>p<n. f (b * n + p))"
proof -
  have "sum f {b * n..<b * n + n} = (\<Sum>p<n. f (b * n + p))" for b
    using sum.shift_bounds_nat_ivl[of f 0 "b * n" n]
    by (simp add: atLeast0LessThan add.commute)
  then have "(\<Sum>b<k. \<Sum>p<n. f (b * n + p)) = (\<Sum>b<k. sum f {b * n..<b * n + n})"
    by simp
  also have "\<dots> = sum f {..<k * n}" by (rule sum.nat_group)
  finally show ?thesis by (simp add: mult.commute)
qed

lemma TranspMultiplyAcc_calls:
  "gemm_calls (MatrixTranspMultiplyAcc_GPU dev l r y s)
   = gemm_calls s + (if bd (d l) = 1 \<and> bd (d y) = bd (d r) then 1 else nat (int_of_unsigned (max (bd (d l)) (bd (d r)))))"
  by (simp add: MatrixTranspMultiplyAcc_GPU_def Let_def for_upto_calls)

lemma MultiplyTranspAcc_calls:
  "gemm_calls (MatrixMultiplyTranspAcc_GPU dev l r y s)
   = gemm_calls s + (if bd (d y) = 1 \<and> bd (d l) = bd (d r) then 1 else nat (int_of_unsigned (max (bd (d l)) (bd (d r)))))"
  by (simp add: MatrixMultiplyTranspAcc_GPU_def Let_def for_upto_calls)

lemma TranspMultiplyAcc_reads:
  assumes sh: "TranspMultiply_shapes l r y" and nl: "no_overlap l y" and nr: "no_overlap r y"
      and pos: "0 < bd (d l)" "0 < bd (d r)"
  shows "i < rows (d y) \<Longrightarrow> p < rows (d l) \<Longrightarrow>
           \<not> in_buf y (op_addr CUBLAS_OP_T (batch_ptr l b) (rows (d l)) i p)"
    and "p < rows (d l) \<Longrightarrow> j < cols (d y) \<Longrightarrow>
           \<not> in_buf y (op_addr CUBLAS_OP_N (batch_ptr r b) (rows (d r)) p j)"
  using sh pos elem_in_buf[of l p i b] elem_in_buf[of r p j b]
        no_overlap_not_in_buf[OF nl] no_overlap_not_in_buf[OF nr]
  by (simp_all add: op_addr_def TranspMultiply_shapes_def)

lemma MultiplyTransp_reads:
  assumes sh: "MultiplyTransp_shapes l r y" and nl: "no_overlap l y" and nr: "no_overlap r y"
      and pos: "0 < bd (d l)" "0 < bd (d r)"
  shows "i < rows (d y) \<Longrightarrow> p < cols (d l) \<Longrightarrow>
           \<not> in_buf y (op_addr CUBLAS_OP_N (batch_ptr l b) (rows (d l)) i p)"
    and "p < cols (d l) \<Longrightarrow> j < cols (d y) \<Longrightarrow>
           \<not> in_buf y (op_addr CUBLAS_OP_T (batch_ptr r b) (rows (d r)) p j)"
  using sh pos elem_in_buf[of l i p b] elem_in_buf[of r j p b]
        no_overlap_not_in_buf[OF nl] no_overlap_not_in_buf[OF nr]
  by (simp_all add: op_addr_def MultiplyTransp_shapes_def)


lemma TranspMultiplyAcc_single:
  fixes s :: "'a::{comm_monoid_add,monoid_mult} machine"
  assumes sh: "TranspMultiply_shapes l r y" and nl: "no_overlap l y" and nr: "no_overlap r y"
      and pos: "0 < bd (d l)" "0 < bd (d r)"
      and y1: "bd (d y) = 1" and k: "1 < max (bd (d l)) (bd (d r))"
      and small: "max (bd (d l)) (bd (d r)) < 2 ^ 31"
      and i: "i < rows (d y)" and j: "j < cols (d y)"
  shows "store (MatrixTranspMultiplyAcc_GPU dev l r y s) (elem_addr y 0 i j)
         = store s (elem_addr y 0 i j)
           + (\<Sum>b<max (bd (d l)) (bd (d r)). prod_elem_TN (store s) l b r b i j)"
proof -
  have loop: "\<not> (bd (d l) = 1 \<and> bd (d y) = bd (d r))" using y1 k by auto
  have y0: "elem_addr y 0 i j = v y + i + j * rows (d y)"
    by (simp add: elem_addr_def batch_ptr_def)
  show ?thesis
    unfolding MatrixTranspMultiplyAcc_GPU_def Let_def if_not_P[OF loop] y0
              int_of_unsigned_small[OF small]
    by (subst sgemm_loop_single[OF TranspMultiplyAcc_reads[OF sh nl nr pos] y1 i j])
       (simp_all add: prod_elem_TN_def elem_addr_def op_addr_def)
qed

lemma MultiplyTranspAcc_post:
  fixes s :: "'a::{comm_monoid_add,monoid_mult} machine"
  assumes sh: "MultiplyTransp_shapes l r y" and nl: "no_overlap l y" and nr: "no_overlap r y"
      and pos: "0 < bd (d l)" "0 < bd (d r)"
      and loop: "\<not> (bd (d y) = 1 \<and> bd (d l) = bd (d r))"
      and ymax: "bd (d y) = max (bd (d l)) (bd (d r))"
      and small: "max (bd (d l)) (bd (d r)) < 2 ^ 31"
      and b: "b < bd (d y)" and i: "i < rows (d y)" and j: "j < cols (d y)"
  shows "store (MatrixMultiplyTranspAcc_GPU dev l r y s) (elem_addr y b i j)
         = store s (elem_addr y b i j) + prod_elem_NT (store s) l b r b i j"
proof -
  have nb: "nat (int_of_unsigned (max (bd (d l)) (bd (d r)))) = bd (d y)"
    using int_of_unsigned_small[OF small] ymax by simp
  have "store (for_upto (bd (d y)) (\<lambda>b. cublasSgemm CUBLAS_OP_N CUBLAS_OP_T (rows (d y)) (cols (d y))
              (cols (d l)) kSCALAR_ONE (batch_ptr l b) (rows (d l)) (batch_ptr r b) (rows (d r))
              kSCALAR_ONE (batch_ptr y b) (rows (d y))) s) (batch_ptr y b + i + j * rows (d y))
        = kSCALAR_ONE * (\<Sum>p<cols (d l). store s (op_addr CUBLAS_OP_N (batch_ptr l b) (rows (d l)) i p)
                            * store s (op_addr CUBLAS_OP_T (batch_ptr r b) (rows (d r)) p j))
              + kSCALAR_ONE * store s (batch_ptr y b + i + j * rows (d y))"
    using sgemm_loop_distinct[where n="bd (d y)" and y=y and l=l and r=r
            and ta=CUBLAS_OP_N and tb=CUBLAS_OP_T and k="cols (d l)" and lda="rows (d l)"
            and ldb="rows (d r)" and al=kSCALAR_ONE and be=kSCALAR_ONE and s=s,
            OF MultiplyTransp_reads[OF sh nl nr pos]] b i j
    by blast
  then show ?thesis
    unfolding MatrixMultiplyTranspAcc_GPU_def Let_def if_not_P[OF loop]
              nb
              prod_elem_NT_def elem_addr_def op_addr_def kSCALAR_ONE_def
    by (simp add: add.commute)
qed

lemma MultiplyTranspAcc_single:
  fixes s :: "'a::{comm_monoid_add,monoid_mult} machine"
  assumes sh: "MultiplyTransp_shapes l r y" and nl: "no_overlap l y" and nr: "no_overlap r y"
      and pos: "0 < bd (d l)" "0 < bd (d r)"
      and y1: "bd (d y) = 1" and loop: "bd (d l) \<noteq> bd (d r)"
      and small: "max (bd (d l)) (bd (d r)) < 2 ^ 31"
      and i: "i < rows (d y)" and j: "j < cols (d y)"
  shows "store (MatrixMultiplyTranspAcc_GPU dev l r y s) (elem_addr y 0 i j)
         = store s (elem_addr y 0 i j)
           + (\<Sum>b<max (bd (d l)) (bd (d r)). prod_elem_NT (store s) l b r b i j)"
proof -
  have loop': "\<not> (bd (d y) = 1 \<and> bd (d l) = bd (d r))" using loop by simp
  have y0: "elem_addr y 0 i j = v y + i + j * rows (d y)"
    by (simp add: elem_addr_def batch_ptr_def)
  show ?thesis
    unfolding MatrixMultiplyTranspAcc_GPU_def Let_def if_not_P[OF loop'] y0
              int_of_unsigned_small[OF small]
    by (subst sgemm_loop_single[OF MultiplyTransp_reads[OF sh nl nr pos] y1 i j])
       (simp_all add: prod_elem_NT_def elem_addr_def op_addr_def)
qed

lemma MultiplyTranspAcc_wide:
  fixes s :: "'a::{comm_monoid_add,monoid_mult} machine"
  assumes sh: "MultiplyTransp_shapes l r y"
      and y1: "bd (d y) = 1" and eq: "bd (d l) = bd (d r)"
      and i: "i < rows (d y)" and j: "j < cols (d y)"
  shows "store (MatrixMultiplyTranspAcc_GPU dev l r y s) (elem_addr y 0 i j)
         = store s (elem_addr y 0 i j)
           + (\<Sum>b<bd (d l). prod_elem_NT (store s) l b r b i j)"
proof -
  have wide: "bd (d y) = 1 \<and> bd (d l) = bd (d r)" using y1 eq by simp
  have y0: "elem_addr y 0 i j = v y + i + j * rows (d y)"
    by (simp add: elem_addr_def batch_ptr_def)
  have cr: "cols (d r) = cols (d l)" using sh by (simp add: MultiplyTransp_shapes_def)
  have inner: "prod_elem_NT (store s) l b r b i j
        = (\<Sum>p<cols (d l). store s (v l + i + (b * cols (d l) + p) * rows (d l))
                            * store s (v r + j + (b * cols (d l) + p) * rows (d r)))"
    if "b < bd (d l)" for b
    using that eq by (simp add: prod_elem_NT_def wide_addr cr)
  have "(\<Sum>b<bd (d l). prod_elem_NT (store s) l b r b i j)
        = (\<Sum>b<bd (d l). \<Sum>p<cols (d l). store s (v l + i + (b * cols (d l) + p) * rows (d l))
                            * store s (v r + j + (b * cols (d l) + p) * rows (d r)))"
    by (intro sum.cong refl inner) simp
  also have "\<dots> = (\<Sum>q<cols (d l) * bd (d l). store s (v l + i + q * rows (d l))
                            * store s (v r + j + q * rows (d r)))"
    by (rule sum_regroup[symmetric])
  finally show ?thesis
    unfolding MatrixMultiplyTranspAcc_GPU_def Let_def if_P[OF wide] y0 sgemm_store_at[OF i j]
    by (simp add: op_addr_def kSCALAR_ONE_def batch_elems_def add.commute)
qed

lemma elem_addr_batch_index: "elem_addr t (batch_index t b) i j = elem_addr t b i j"
  by (simp add: batch_index_def elem_addr_def batch_ptr_def)

lemma batch_sum_TN_mod:
  "batch_sum_TN st l r k i j = (\<Sum>b<k. prod_elem_TN st l b r b i j)"
  by (simp add: batch_sum_TN_def prod_elem_TN_def elem_addr_batch_index)

lemma batch_sum_NT_mod:
  "batch_sum_NT st l r k i j = (\<Sum>b<k. prod_elem_NT st l b r b i j)"
  by (simp add: batch_sum_NT_def prod_elem_NT_def elem_addr_batch_index)


lemmas tensor_defs = mk_tensor_def tensor_size_def batch_size_def batch_elems_def no_overlap_def
  MatrixMultiply_shapes_def TranspMultiply_shapes_def MultiplyTransp_shapes_def

lemma rt_hyps:
  "MultiplyTransp_shapes rt_l rt_r rt_y" "bd (d rt_l) = bd (d rt_r)" "1 < bd (d rt_l)"
  "bd (d rt_y) = 1" "no_overlap rt_l rt_y" "no_overlap rt_r rt_y"
  by (simp_all add: rt_l_def rt_r_def rt_y_def tensor_defs)

lemma lt_hyps:
  "TranspMultiply_shapes lt_l lt_r lt_y" "TranspMultiply_shapes lt_l lt_r lt_y2"
  "0 < bd (d lt_l)" "0 < bd (d lt_r)" "0 < bd (d lt_r1)"
  "no_overlap lt_l lt_y" "no_overlap lt_r lt_y" "no_overlap lt_l lt_y2" "no_overlap lt_r lt_y2"
  "no_overlap lt_r1 lt_y"
  "bd (d lt_y2) = max (bd (d lt_l)) (bd (d lt_r))"
  "bd (d lt_y) = 1" "1 < max (bd (d lt_l)) (bd (d lt_r))"
  "MultiplyTransp_shapes lt_l lt_r1 lt_y" "bd (d lt_l) \<noteq> bd (d lt_r1)"
  by (simp_all add: lt_l_def lt_r_def lt_r1_def lt_y_def lt_y2_def tensor_defs)

lemma sum_lessThan_2: "(\<Sum>b<2. f b) = f 0 + (f (Suc 0) :: 'a::comm_monoid_add)"
  by (simp add: numeral_2_eq_2)

section \<open>Zeroed outputs and the frame of the entry points\<close>

lemma rt_hyps_pos: "0 < bd (d rt_l)" "0 < bd (d rt_r)" "0 < bd (d rt_y)" "0 < bd (d fwd_y)"
  "0 < bd (d lt_y)" "0 < bd (d lt_y2)"
  by (simp_all add: rt_l_def rt_r_def rt_y_def fwd_y_def lt_y_def lt_y2_def mk_tensor_def)




lemma prod_elem_outside:
  assumes eq: "\<And>x. \<not> in_buf y x \<Longrightarrow> st x = st' x"
      and nl: "no_overlap l y" and nr: "no_overlap r y"
      and pos: "0 < bd (d l)" "0 < bd (d r)"
      and i: "i < rows (d l)" and j: "j < cols (d r)" and k: "cols (d l) = rows (d r)"
  shows "prod_elem st l bl r br i j = prod_elem st' l bl r br i j"
  unfolding prod_elem_def
proof (intro sum.cong refl)
  fix p assume "p \<in> {..<cols (d l)}"
  then have p: "p < cols (d l)" "p < rows (d r)" using k by simp_all
  have "st (elem_addr l bl i p) = st' (elem_addr l bl i p)"
    using no_overlap_not_in_buf[OF nl elem_addr_in_buf[OF pos(1) i p(1)]] by (rule eq)
  moreover have "st (elem_addr r br p j) = st' (elem_addr r br p j)"
    using no_overlap_not_in_buf[OF nr elem_addr_in_buf[OF pos(2) p(2) j]] by (rule eq)
  ultimately show "st (elem_addr l bl i p) * st (elem_addr r br p j)
                   = st' (elem_addr l bl i p) * st' (elem_addr r br p j)" by simp
qed

lemma MatrixMultiply_CPU_sgemm_dims:
  assumes "MatrixMultiply_dims l r y"
  shows "MatrixMultiply_CPU l r y al s = Some (mm_sgemm l r y kSCALAR_ONE (scale_tbvec al y s))"
proof (cases "bd (d l) = 1 \<and> bd (d r) = bd (d y)")
  case True
  show ?thesis
    unfolding MatrixMultiply_CPU_def mm_sgemm_def Let_def if_P[OF True]
    using assms True
    by (simp add: MatrixMultiply_dims_def colbatch_matrix_def deref_def batch_elems_def
                  eigen_eq_sgemm_NN)
next
  case False
  show ?thesis
    unfolding MatrixMultiply_CPU_def mm_sgemm_def Let_def if_not_P[OF False]
    using assms
    by (intro for_upto_opt_Some)
       (simp add: MatrixMultiply_dims_def batch_matrix_def eigen_eq_sgemm_NN)
qed

lemma mm_sgemm_post_dims:
  fixes be :: "'a::{comm_monoid_add,monoid_mult}"
  assumes sh: "MatrixMultiply_dims l r y" and nl: "no_overlap l y" and nr: "no_overlap r y"
      and pos: "0 < bd (d l)" "0 < bd (d r)"
      and b: "b < bd (d y)" and i: "i < rows (d y)" and j: "j < cols (d y)"
  shows "store (mm_sgemm l r y be s) (elem_addr y b i j)
         = prod_elem (store s) l b r b i j + be * store s (elem_addr y b i j)"
proof (cases "bd (d l) = 1 \<and> bd (d r) = bd (d y)")
  case True
  have J: "b * cols (d y) + j < cols (d y) * batch_elems (d y)"
    using idx_less[OF j b] by (simp add: batch_elems_def add.commute)
  have r: "elem_addr r b p j = v r + p + (b * cols (d y) + j) * rows (d r)" for p
    using sh b True by (simp add: wide_addr MatrixMultiply_dims_def)
  have l: "elem_addr l b i p = v l + i + p * rows (d l)" for p
    using True by (simp add: elem_addr_def batch_ptr_def)
  show ?thesis
    unfolding mm_sgemm_def if_P[OF True] wide_addr[OF b] sgemm_store_at[OF i J] prod_elem_def r l
    by (simp add: op_addr_def kSCALAR_ONE_def)
next
  case False
  have rA: "\<not> in_buf y (op_addr CUBLAS_OP_N (batch_ptr l b') (rows (d l)) i' p)"
    if "i' < rows (d y)" "p < cols (d l)" for b' i' p
    using that sh pos elem_in_buf[of l i' p b'] no_overlap_not_in_buf[OF nl]
    by (simp add: op_addr_def MatrixMultiply_dims_def)
  have rB: "\<not> in_buf y (op_addr CUBLAS_OP_N (batch_ptr r b') (rows (d r)) p j')"
    if "p < cols (d l)" "j' < cols (d y)" for b' p j'
    using that sh pos elem_in_buf[of r p j' b'] no_overlap_not_in_buf[OF nr]
    by (simp add: op_addr_def MatrixMultiply_dims_def)
  have "store (for_upto (bd (d y)) (\<lambda>b. cublasSgemm CUBLAS_OP_N CUBLAS_OP_N (rows (d y)) (cols (d y))
              (cols (d l)) kSCALAR_ONE (batch_ptr l b) (rows (d l)) (batch_ptr r b) (rows (d r))
              be (batch_ptr y b) (rows (d y))) s) (batch_ptr y b + i + j * rows (d y))
        = kSCALAR_ONE * (\<Sum>p<cols (d l). store s (op_addr CUBLAS_OP_N (batch_ptr l b) (rows (d l)) i p)
                            * store s (op_addr CUBLAS_OP_N (batch_ptr r b) (rows (d r)) p j))
              + be * store s (batch_ptr y b + i + j * rows (d y))"
    using sgemm_loop_distinct[where n="bd (d y)" and y=y and l=l and r=r
            and ta=CUBLAS_OP_N and tb=CUBLAS_OP_N and k="cols (d l)" and lda="rows (d l)"
            and ldb="rows (d r)" and al=kSCALAR_ONE and be=be and s=s, OF rA rB] b i j
    by blast
  then show ?thesis
    unfolding mm_sgemm_def if_not_P[OF False] prod_elem_def elem_addr_def op_addr_def
              kSCALAR_ONE_def
    by simp
qed

lemma MatrixMultiply_CPU_GPU_store:
  fixes s :: "'a::{comm_monoid_add,monoid_mult} machine"
  assumes sh: "MatrixMultiply_dims l r y" and nl: "no_overlap l y" and nr: "no_overlap r y"
      and pos: "0 < bd (d l)" "0 < bd (d r)"
  shows "store (mm_sgemm l r y kSCALAR_ONE (scale_tbvec al y s))
         = store (MatrixMultiply_GPU dev l r y al s)"
proof (rule store_eqI[where y=y])
  fix x assume "\<not> in_buf y x"
  then show "store (mm_sgemm l r y kSCALAR_ONE (scale_tbvec al y s)) x
             = store (MatrixMultiply_GPU dev l r y al s) x"
    by (simp add: MatrixMultiply_CPU_frame MatrixMultiply_GPU_frame)
next
  fix b i j assume b: "b < bd (d y)" and i: "i < rows (d y)" and j: "j < cols (d y)"
  have sh': "rows (d l) = rows (d y)" "cols (d r) = cols (d y)" "cols (d l) = rows (d r)"
    using sh by (auto simp add: MatrixMultiply_dims_def)
  have out: "\<not> in_buf y x \<Longrightarrow> store (scale_tbvec al y s) x = store s x" for x
    by (simp add: scale_tbvec_store)
  have p: "prod_elem (store (scale_tbvec al y s)) l b r b i j = prod_elem (store s) l b r b i j"
    using i j sh' by (intro prod_elem_outside[OF out nl nr pos]) simp_all
  have yb: "0 < bd (d y)" using b by simp
  have Y: "store (scale_tbvec al y s) (elem_addr y b i j) = al * store s (elem_addr y b i j)"
    using elem_addr_in_buf[OF yb i j] by (simp add: scale_tbvec_store)
  show "store (mm_sgemm l r y kSCALAR_ONE (scale_tbvec al y s)) (elem_addr y b i j)
        = store (MatrixMultiply_GPU dev l r y al s) (elem_addr y b i j)"
    unfolding MatrixMultiply_GPU_sgemm mm_sgemm_post_dims[OF sh nl nr pos b i j] p Y
    by (simp add: kSCALAR_ONE_def)
qed

lemma eigen_frame:
  assumes "noalias_add_assign m e s = Some s'"
      and "x < mdata m \<or> mdata m + mrows m * mcols m \<le> x"
  shows "store s' x = store s x"
  using assms by (auto simp add: noalias_add_assign_def split: if_splits)

lemma for_upto_opt_frame:
  assumes step: "\<And>b t t'. b < n \<Longrightarrow> body b t = Some t' \<Longrightarrow> store t' x = store t x"
      and run: "for_upto_opt n body s = Some s'"
  shows "store s' x = store s x"
  using assms
proof (induction n arbitrary: s')
  case 0
  then show ?case by simp
next
  case (Suc n)
  from Suc.prems(2) obtain t where t: "for_upto_opt n body s = Some t" and b: "body n t = Some s'"
    by (auto split: option.splits)
  have "store t x = store s x"
  proof (rule Suc.IH[OF _ t])
    fix c u u' assume "c < n" "body c u = Some u'"
    then show "store u' x = store u x" using Suc.prems(1)[of c u u'] by simp
  qed
  moreover have "store s' x = store t x" using Suc.prems(1)[of n t s'] b by simp
  ultimately show ?case by simp
qed

lemma buf_outside_whole:
  assumes "0 < bd (d y)" "\<not> in_buf y x"
  shows "x < v y \<or> v y + rows (d y) * cols (d y) \<le> x"
  using block_in_buf[OF assms, of 0] by (simp add: batch_ptr_def)

lemma buf_outside_wide:
  assumes "\<not> in_buf y x"
  shows "x < v y \<or> v y + rows (d y) * (cols (d y) * batch_elems (d y)) \<le> x"
  using assms by (auto simp add: in_buf_def tensor_size_def batch_size_def mult.assoc)

lemma batch_matrix_frame:
  assumes "0 < bd (d y)" "\<not> in_buf y x" "noalias_add_assign (batch_matrix y b) e s = Some s'"
  shows "store s' x = store s x"
  using eigen_frame[OF assms(3)] block_in_buf[OF assms(1,2), of b]
  by (simp add: batch_matrix_def)

lemma colbatch_matrix_frame:
  assumes "\<not> in_buf y x" "noalias_add_assign (colbatch_matrix y) e s = Some s'"
  shows "store s' x = store s x"
  using eigen_frame[OF assms(2)] buf_outside_wide[OF assms(1)]
  by (simp add: colbatch_matrix_def)

lemma deref_frame:
  assumes "0 < bd (d y)" "\<not> in_buf y x" "noalias_add_assign (deref y) e s = Some s'"
  shows "store s' x = store s x"
  using eigen_frame[OF assms(3)] buf_outside_whole[OF assms(1,2)]
  by (simp add: deref_def)

lemma MatrixMultiply_CPU_result_frame:
  fixes s :: "'a::{comm_monoid_add,monoid_mult} machine"
  assumes "0 < bd (d y)" "\<not> in_buf y x" "MatrixMultiply_CPU l r y al s = Some s'"
  shows "store s' x = store s x"
proof -
  have sc: "store (scale_tbvec al y s) x = store s x"
    using assms(2) by (simp add: scale_tbvec_store)
  have "store s' x = store (scale_tbvec al y s) x"
  proof (cases "bd (d l) = 1 \<and> bd (d r) = bd (d y)")
    case True
    have "noalias_add_assign (colbatch_matrix y)
            (Product (Ref (deref l)) (Ref (colbatch_matrix r))) (scale_tbvec al y s) = Some s'"
      using assms(3) unfolding MatrixMultiply_CPU_def Let_def if_P[OF True] .
    then show ?thesis by (rule colbatch_matrix_frame[OF assms(2)])
  next
    case False
    have run: "for_upto_opt (bd (d y)) (\<lambda>b. noalias_add_assign (batch_matrix y b)
                 (Product (Ref (batch_matrix l b)) (Ref (batch_matrix r b))))
                 (scale_tbvec al y s) = Some s'"
      using assms(3) unfolding MatrixMultiply_CPU_def Let_def if_not_P[OF False] .
    show ?thesis
    proof (rule for_upto_opt_frame[OF _ run])
      fix b and t t' :: "'a machine"
      assume "noalias_add_assign (batch_matrix y b)
                (Product (Ref (batch_matrix l b)) (Ref (batch_matrix r b))) t = Some t'"
      then show "store t' x = store t x" by (rule batch_matrix_frame[OF assms(1,2)])
    qed
  qed
  then show ?thesis using sc by simp
qed

lemma MatrixTranspMultiplyAcc_CPU_result_frame:
  fixes s :: "'a::{comm_monoid_add,monoid_mult} machine"
  assumes "0 < bd (d y)" "\<not> in_buf y x" "MatrixTranspMultiplyAcc_CPU l r y s = Some s'"
  shows "store s' x = store s x"
proof (cases "bd (d l) = 1 \<and> bd (d y) = bd (d r)")
  case True
  have "noalias_add_assign (colbatch_matrix y)
          (Product (Transpose (Ref (deref l))) (Ref (colbatch_matrix r))) s = Some s'"
    using assms(3) unfolding MatrixTranspMultiplyAcc_CPU_def Let_def if_P[OF True] .
  then show ?thesis by (rule colbatch_matrix_frame[OF assms(2)])
next
  case False
  have run: "for_upto_opt (nat (int_of_unsigned (max (bd (d l)) (bd (d r))))) (\<lambda>b. noalias_add_assign (batch_matrix y b)
               (Product (Transpose (Ref (batch_matrix l b))) (Ref (batch_matrix r b)))) s = Some s'"
    using assms(3) unfolding MatrixTranspMultiplyAcc_CPU_def Let_def if_not_P[OF False] .
  show ?thesis
  proof (rule for_upto_opt_frame[OF _ run])
    fix b and t t' :: "'a machine"
    assume "noalias_add_assign (batch_matrix y b)
              (Product (Transpose (Ref (batch_matrix l b))) (Ref (batch_matrix r b))) t = Some t'"
    then show "store t' x = store t x" by (rule batch_matrix_frame[OF assms(1,2)])
  qed
qed

lemma MatrixMultiplyTranspAcc_CPU_result_frame:
  fixes s :: "'a::{comm_monoid_add,monoid_mult} machine"
  assumes "0 < bd (d y)" "\<not> in_buf y x" "MatrixMultiplyTranspAcc_CPU l r y s = Some s'"
  shows "store s' x = store s x"
proof (cases "bd (d y) = 1 \<and> bd (d l) = bd (d r)")
  case True
  have "noalias_add_assign (deref y)
          (Product (Ref (colbatch_matrix l)) (Transpose (Ref (colbatch_matrix r)))) s = Some s'"
    using assms(3) unfolding MatrixMultiplyTranspAcc_CPU_def Let_def if_P[OF True] .
  then show ?thesis by (rule deref_frame[OF assms(1,2)])
next
  case False
  have run: "for_upto_opt (nat (int_of_unsigned (max (bd (d l)) (bd (d r))))) (\<lambda>b. noalias_add_assign (batch_matrix y b)
               (Product (Ref (batch_matrix l b)) (Transpose (Ref (batch_matrix r b))))) s = Some s'"
    using assms(3) unfolding MatrixMultiplyTranspAcc_CPU_def Let_def if_not_P[OF False] .
  show ?thesis
  proof (rule for_upto_opt_frame[OF _ run])
    fix b and t t' :: "'a machine"
    assume "noalias_add_assign (batch_matrix y b)
              (Product (Ref (batch_matrix l b)) (Transpose (Ref (batch_matrix r b)))) t = Some t'"
    then show "store t' x = store t x" by (rule batch_matrix_frame[OF assms(1,2)])
  qed
qed

lemma MatrixTranspMultiplyAcc_GPU_frame:
  assumes "0 < bd (d y)" "\<not> in_buf y x"
  shows "store (MatrixTranspMultiplyAcc_GPU dev l r y s) x = store s x"
  using assms by (simp add: MatrixTranspMultiplyAcc_GPU_def Let_def wide_frame sgemm_loop_frame)

lemma MatrixMultiplyTranspAcc_GPU_frame:
  assumes "0 < bd (d y)" "\<not> in_buf y x"
  shows "store (MatrixMultiplyTranspAcc_GPU dev l r y s) x = store s x"
  using assms buf_outside_whole[OF assms]
  by (simp add: MatrixMultiplyTranspAcc_GPU_def Let_def sgemm_store_outside sgemm_loop_frame)

section \<open>Runs on agreeing stores\<close>

lemma agree_on_in_buf: "agree_on t st st' = (\<forall>x. in_buf t x \<longrightarrow> st x = st' x)"
  by (auto simp add: agree_on_def in_buf_def)

lemma agree_in_bufs:
  "(agree_on l st st' \<and> agree_on r st st' \<and> agree_on y st st')
   = (\<forall>x. in_bufs l r y x \<longrightarrow> st x = st' x)"
  by (auto simp add: agree_on_in_buf in_bufs_def)

lemma sgemm_store:
  "store (cublasSgemm ta tb m n k al A lda B ldb be C ldc s) x
   = (if C \<le> x \<and> (x - C) mod ldc < m \<and> (x - C) div ldc < n
      then al * (\<Sum>p<k. store s (op_addr ta A lda ((x - C) mod ldc) p)
                         * store s (op_addr tb B ldb p ((x - C) div ldc)))
           + be * store s x
      else store s x)"
  by (simp add: cublasSgemm_def)

lemma sgemm_agree:
  fixes s s' :: "'a::{comm_monoid_add,monoid_mult} machine"
  assumes eq: "\<forall>x. F x \<longrightarrow> store s x = store s' x"
      and rA: "\<And>i p. i < m \<Longrightarrow> p < k \<Longrightarrow> F (op_addr ta A lda i p)"
      and rB: "\<And>p j. p < k \<Longrightarrow> j < n \<Longrightarrow> F (op_addr tb B ldb p j)"
  shows "\<forall>x. F x \<longrightarrow> store (cublasSgemm ta tb m n k al A lda B ldb be C ldc s) x
                      = store (cublasSgemm ta tb m n k al A lda B ldb be C ldc s') x"
proof (intro allI impI)
  fix x assume x: "F x"
  have sx: "store s x = store s' x" using eq x by simp
  show "store (cublasSgemm ta tb m n k al A lda B ldb be C ldc s) x
        = store (cublasSgemm ta tb m n k al A lda B ldb be C ldc s') x"
  proof (cases "C \<le> x \<and> (x - C) mod ldc < m \<and> (x - C) div ldc < n")
    case True
    have "(\<Sum>p<k. store s (op_addr ta A lda ((x - C) mod ldc) p)
                   * store s (op_addr tb B ldb p ((x - C) div ldc)))
          = (\<Sum>p<k. store s' (op_addr ta A lda ((x - C) mod ldc) p)
                   * store s' (op_addr tb B ldb p ((x - C) div ldc)))"
      using True eq rA rB by (intro sum.cong refl) simp
    then show ?thesis unfolding sgemm_store if_P[OF True] sx by simp
  next
    case False
    show ?thesis unfolding sgemm_store if_not_P[OF False] by (rule sx)
  qed
qed

lemma for_upto_agree:
  assumes step: "\<And>b t t'. b < n \<Longrightarrow> \<forall>x. F x \<longrightarrow> store t x = store t' x \<Longrightarrow>
                    \<forall>x. F x \<longrightarrow> store (body b t) x = store (body b t') x"
      and eq: "\<forall>x. F x \<longrightarrow> store s x = store s' x"
  shows "\<forall>x. F x \<longrightarrow> store (for_upto n body s) x = store (for_upto n body s') x"
  using step
proof (induction n)
  case 0
  show ?case using eq by simp
next
  case (Suc n)
  have "\<forall>x. F x \<longrightarrow> store (for_upto n body s) x = store (for_upto n body s') x"
    using Suc.IH Suc.prems by simp
  then show ?case using Suc.prems[of n] by simp
qed

lemma scale_tbvec_agree:
  assumes "\<forall>x. F x \<longrightarrow> store s x = store s' x"
  shows "\<forall>x. F x \<longrightarrow> store (scale_tbvec al y s) x = store (scale_tbvec al y s') x"
  using assms by (simp add: scale_tbvec_store)

lemma in_bufs_l: "in_buf l x \<Longrightarrow> in_bufs l r y x"
  and in_bufs_r: "in_buf r x \<Longrightarrow> in_bufs l r y x"
  by (simp_all add: in_bufs_def)

lemma elem_in_buf1:
  assumes "bd (d t) = 1" "i < rows (d t)" "j < cols (d t)"
  shows "in_buf t (v t + i + j * rows (d t))"
  using wide_in_buf[of i t j] assms by simp

lemma mm_sgemm_agree:
  fixes s s' :: "'a::{comm_monoid_add,monoid_mult} machine"
  assumes sh: "MatrixMultiply_shapes l r y"
      and eq: "\<forall>x. in_bufs l r y x \<longrightarrow> store s x = store s' x"
  shows "\<forall>x. in_bufs l r y x \<longrightarrow> store (mm_sgemm l r y be s) x = store (mm_sgemm l r y be s') x"
proof -
  have sh': "rows (d l) = rows (d y)" "cols (d r) = cols (d y)" "rows (d r) = cols (d l)"
           "bd (d r) = bd (d y)" "bd (d l) = 1 \<or> bd (d l) = bd (d y)"
    using sh by (auto simp add: MatrixMultiply_shapes_def)
  show ?thesis
  proof (cases "bd (d l) = 1 \<and> bd (d r) = bd (d y)")
    case True
    show ?thesis
      unfolding mm_sgemm_def if_P[OF True]
    proof (rule sgemm_agree[OF eq])
      fix i p assume a: "i < rows (d y)" "p < cols (d l)"
      have bnd: "i < rows (d l)" "p < cols (d l)"
        using a True sh' by (simp_all add: batch_elems_def)
      have "in_buf l (v l + i + p * rows (d l))" using True bnd by (intro elem_in_buf1) simp_all
      then show "in_bufs l r y (op_addr CUBLAS_OP_N (v l) (rows (d l)) i p)"
        by (simp add: op_addr_def in_bufs_def)
    next
      fix p j assume a: "p < cols (d l)" "j < cols (d y) * batch_elems (d y)"
      have bnd: "p < rows (d r)" "j < cols (d r) * bd (d r)"
        using a sh' by (simp_all add: batch_elems_def)
      have "in_buf r (v r + p + j * rows (d r))" using bnd by (rule wide_in_buf)
      then show "in_bufs l r y (op_addr CUBLAS_OP_N (v r) (rows (d r)) p j)"
        by (simp add: op_addr_def in_bufs_def)
    qed
  next
    case False
    then have bl: "bd (d l) = bd (d y)" using sh' by auto
    show ?thesis
      unfolding mm_sgemm_def if_not_P[OF False]
    proof (rule for_upto_agree[OF _ eq])
      fix b and t t' :: "'a machine"
      assume b: "b < bd (d y)" and tt: "\<forall>x. in_bufs l r y x \<longrightarrow> store t x = store t' x"
      show "\<forall>x. in_bufs l r y x \<longrightarrow>
              store (cublasSgemm CUBLAS_OP_N CUBLAS_OP_N (rows (d y)) (cols (d y)) (cols (d l))
                       kSCALAR_ONE (batch_ptr l b) (rows (d l)) (batch_ptr r b) (rows (d r)) be
                       (batch_ptr y b) (rows (d y)) t) x
              = store (cublasSgemm CUBLAS_OP_N CUBLAS_OP_N (rows (d y)) (cols (d y)) (cols (d l))
                       kSCALAR_ONE (batch_ptr l b) (rows (d l)) (batch_ptr r b) (rows (d r)) be
                       (batch_ptr y b) (rows (d y)) t') x"
      proof (rule sgemm_agree[OF tt])
        fix i p assume a: "i < rows (d y)" "p < cols (d l)"
        have bnd: "i < rows (d l)" "p < cols (d l)"
          using a b bl sh' by (simp_all add: batch_elems_def)
        have "in_buf l (batch_ptr l b + i + p * rows (d l))" using b bl sh'(4) bnd by (intro elem_in_buf) simp_all
        then show "in_bufs l r y (op_addr CUBLAS_OP_N (batch_ptr l b) (rows (d l)) i p)"
          by (simp add: op_addr_def in_bufs_def)
      next
        fix p j assume a: "p < cols (d l)" "j < cols (d y)"
        have bnd: "p < rows (d r)" "j < cols (d r)"
          using a b sh' by (simp_all add: batch_elems_def)
        have "in_buf r (batch_ptr r b + p + j * rows (d r))" using b sh'(4) bnd by (intro elem_in_buf) simp_all
        then show "in_bufs l r y (op_addr CUBLAS_OP_N (batch_ptr r b) (rows (d r)) p j)"
          by (simp add: op_addr_def in_bufs_def)
      qed
    qed
  qed
qed

lemma TranspMultiplyAcc_agree:
  fixes s s' :: "'a::{comm_monoid_add,monoid_mult} machine"
  assumes sh: "TranspMultiply_shapes l r y" and pos: "0 < bd (d l)" "0 < bd (d r)"
      and eq: "\<forall>x. in_bufs l r y x \<longrightarrow> store s x = store s' x"
  shows "\<forall>x. in_bufs l r y x \<longrightarrow> store (MatrixTranspMultiplyAcc_GPU dev l r y s) x
                                  = store (MatrixTranspMultiplyAcc_GPU dev l r y s') x"
proof -
  have sh': "rows (d r) = rows (d l)" "rows (d y) = cols (d l)" "cols (d r) = cols (d y)"
    using sh by (auto simp add: TranspMultiply_shapes_def)
  show ?thesis
  proof (cases "bd (d l) = 1 \<and> bd (d y) = bd (d r)")
    case True
    show ?thesis
      unfolding MatrixTranspMultiplyAcc_GPU_def Let_def if_P[OF True]
    proof (rule sgemm_agree[OF eq])
      fix i p assume a: "i < rows (d y)" "p < rows (d l)"
      have bnd: "p < rows (d l)" "i < cols (d l)"
        using a True sh' by (simp_all add: batch_elems_def)
      have "in_buf l (v l + p + i * rows (d l))" using True bnd by (intro elem_in_buf1) simp_all
      then show "in_bufs l r y (op_addr CUBLAS_OP_T (v l) (rows (d l)) i p)"
        by (simp add: op_addr_def in_bufs_def)
    next
      fix p j assume a: "p < rows (d l)" "j < cols (d y) * batch_elems (d y)"
      have bnd: "p < rows (d r)" "j < cols (d r) * bd (d r)"
        using a True sh' by (simp_all add: batch_elems_def)
      have "in_buf r (v r + p + j * rows (d r))" using bnd by (rule wide_in_buf)
      then show "in_bufs l r y (op_addr CUBLAS_OP_N (v r) (rows (d r)) p j)"
        by (simp add: op_addr_def in_bufs_def)
    qed
  next
    case False
    show ?thesis
      unfolding MatrixTranspMultiplyAcc_GPU_def Let_def if_not_P[OF False]
    proof (rule for_upto_agree[OF _ eq])
      fix b and t t' :: "'a machine"
      assume tt: "\<forall>x. in_bufs l r y x \<longrightarrow> store t x = store t' x"
      show "\<forall>x. in_bufs l r y x \<longrightarrow>
              store (cublasSgemm CUBLAS_OP_T CUBLAS_OP_N (rows (d y)) (cols (d y)) (rows (d l))
                       kSCALAR_ONE (batch_ptr l b) (rows (d l)) (batch_ptr r b) (rows (d r))
                       kSCALAR_ONE (batch_ptr y b) (rows (d y)) t) x
              = store (cublasSgemm CUBLAS_OP_T CUBLAS_OP_N (rows (d y)) (cols (d y)) (rows (d l))
                       kSCALAR_ONE (batch_ptr l b) (rows (d l)) (batch_ptr r b) (rows (d r))
                       kSCALAR_ONE (batch_ptr y b) (rows (d y)) t') x"
      proof (rule sgemm_agree[OF tt])
        fix i p assume a: "i < rows (d y)" "p < rows (d l)"
        have bnd: "p < rows (d l)" "i < cols (d l)"
          using a pos sh' by (simp_all add: batch_elems_def)
        have "in_buf l (batch_ptr l b + p + i * rows (d l))" using pos bnd by (intro elem_in_buf) simp_all
        then show "in_bufs l r y (op_addr CUBLAS_OP_T (batch_ptr l b) (rows (d l)) i p)"
          by (simp add: op_addr_def in_bufs_def)
      next
        fix p j assume a: "p < rows (d l)" "j < cols (d y)"
        have bnd: "p < rows (d r)" "j < cols (d r)"
          using a pos sh' by (simp_all add: batch_elems_def)
        have "in_buf r (batch_ptr r b + p + j * rows (d r))" using pos bnd by (intro elem_in_buf) simp_all
        then show "in_bufs l r y (op_addr CUBLAS_OP_N (batch_ptr r b) (rows (d r)) p j)"
          by (simp add: op_addr_def in_bufs_def)
      qed
    qed
  qed
qed

lemma MultiplyTranspAcc_agree:
  fixes s s' :: "'a::{comm_monoid_add,monoid_mult} machine"
  assumes sh: "MultiplyTransp_shapes l r y" and pos: "0 < bd (d l)" "0 < bd (d r)"
      and eq: "\<forall>x. in_bufs l r y x \<longrightarrow> store s x = store s' x"
  shows "\<forall>x. in_bufs l r y x \<longrightarrow> store (MatrixMultiplyTranspAcc_GPU dev l r y s) x
                                  = store (MatrixMultiplyTranspAcc_GPU dev l r y s') x"
proof -
  have sh': "cols (d r) = cols (d l)" "rows (d y) = rows (d l)" "cols (d y) = rows (d r)"
    using sh by (auto simp add: MultiplyTransp_shapes_def)
  show ?thesis
  proof (cases "bd (d y) = 1 \<and> bd (d l) = bd (d r)")
    case True
    show ?thesis
      unfolding MatrixMultiplyTranspAcc_GPU_def Let_def if_P[OF True]
    proof (rule sgemm_agree[OF eq])
      fix i p assume a: "i < rows (d y)" "p < cols (d l) * batch_elems (d l)"
      have bnd: "i < rows (d l)" "p < cols (d l) * bd (d l)"
        using a sh' by (simp_all add: batch_elems_def)
      have "in_buf l (v l + i + p * rows (d l))" using bnd by (rule wide_in_buf)
      then show "in_bufs l r y (op_addr CUBLAS_OP_N (v l) (rows (d l)) i p)"
        by (simp add: op_addr_def in_bufs_def)
    next
      fix p j assume a: "p < cols (d l) * batch_elems (d l)" "j < cols (d y)"
      have bnd: "j < rows (d r)" "p < cols (d r) * bd (d r)"
        using a True sh' by (simp_all add: batch_elems_def)
      have "in_buf r (v r + j + p * rows (d r))" using bnd by (rule wide_in_buf)
      then show "in_bufs l r y (op_addr CUBLAS_OP_T (v r) (rows (d r)) p j)"
        by (simp add: op_addr_def in_bufs_def)
    qed
  next
    case False
    show ?thesis
      unfolding MatrixMultiplyTranspAcc_GPU_def Let_def if_not_P[OF False]
    proof (rule for_upto_agree[OF _ eq])
      fix b and t t' :: "'a machine"
      assume tt: "\<forall>x. in_bufs l r y x \<longrightarrow> store t x = store t' x"
      show "\<forall>x. in_bufs l r y x \<longrightarrow>
              store (cublasSgemm CUBLAS_OP_N CUBLAS_OP_T (rows (d y)) (cols (d y)) (cols (d l))
                       kSCALAR_ONE (batch_ptr l b) (rows (d l)) (batch_ptr r b) (rows (d r))
                       kSCALAR_ONE (batch_ptr y b) (rows (d y)) t) x
              = store (cublasSgemm CUBLAS_OP_N CUBLAS_OP_T (rows (d y)) (cols (d y)) (cols (d l))
                       kSCALAR_ONE (batch_ptr l b) (rows (d l)) (batch_ptr r b) (rows (d r))
                       kSCALAR_ONE (batch_ptr y b) (rows (d y)) t') x"
      proof (rule sgemm_agree[OF tt])
        fix i p assume a: "i < rows (d y)" "p < cols (d l)"
        have bnd: "i < rows (d l)" "p < cols (d l)"
          using a pos sh' by (simp_all add: batch_elems_def)
        have "in_buf l (batch_ptr l b + i + p * rows (d l))" using pos bnd by (intro elem_in_buf) simp_all
        then show "in_bufs l r y (op_addr CUBLAS_OP_N (batch_ptr l b) (rows (d l)) i p)"
          by (simp add: op_addr_def in_bufs_def)
      next
        fix p j assume a: "p < cols (d l)" "j < cols (d y)"
        have bnd: "j < rows (d r)" "p < cols (d r)"
          using a pos sh' by (simp_all add: batch_elems_def)
        have "in_buf r (batch_ptr r b + j + p * rows (d r))" using pos bnd by (intro elem_in_buf) simp_all
        then show "in_bufs l r y (op_addr CUBLAS_OP_T (batch_ptr r b) (rows (d r)) p j)"
          by (simp add: op_addr_def in_bufs_def)
      qed
    qed
  qed
qed

lemma machine_agree:
  "agree_on fwd_l (store machine0) (store machine1)" "agree_on fwd_r (store machine0) (store machine1)"
  "agree_on fwd_y (store machine0) (store machine1)"
  "agree_on lt_l (store machine0) (store machine1)" "agree_on lt_r (store machine0) (store machine1)"
  "agree_on lt_y2 (store machine0) (store machine1)"
  "agree_on rt_l (store machine0) (store machine1)" "agree_on rt_r (store machine0) (store machine1)"
  "agree_on rt_y (store machine0) (store machine1)"
  by (simp_all add: agree_on_def machine0_def machine1_def fwd_l_def fwd_r_def fwd_y_def
        lt_l_def lt_r_def lt_y2_def rt_l_def rt_r_def rt_y_def tensor_defs)

lemma fwd_pos: "0 < bd (d fwd_l)" "0 < bd (d fwd_r)"
  by (simp_all add: fwd_l_def fwd_r_def mk_tensor_def)

section \<open>Forward multiply: the contract\<close>

text \<open>
  Claim C1. For every call of \<^verbatim>\<open>MatrixMultiply\<close> with valid shapes (the columns of \<open>L\<close>
  are the rows of \<open>R\<close>, \<open>Y\<close> has the rows of \<open>L\<close> and the columns of \<open>R\<close>, \<open>R\<close> and
  \<open>Y\<close> have the same batch count, and the batch count of \<open>L\<close> is one or that of
  \<open>Y\<close>), with the output buffer apart from the buffers of the operands, and for every
  batch index \<open>b\<close> below the batch count of \<open>Y\<close>: after the call
  \<open>Y[b] = \<alpha> \<cdot> Y_prev[b] + L[b'] \<cdot> R[b]\<close>, where \<open>b' = b\<close> if \<open>L\<close> has more than one batch
  element and \<open>b' = 0\<close> otherwise. The CPU version returns a state with this property, and
  the accelerator version does too.
\<close>

theorem MatrixMultiply_contract:
  fixes al :: "'a::comm_semiring_1"
  assumes "MatrixMultiply_shapes l r y" and "no_overlap l y" and "no_overlap r y"
  shows "(\<exists>s'. MatrixMultiply_CPU l r y al s = Some s' \<and>
            (\<forall>b<bd (d y). \<forall>i<rows (d y). \<forall>j<cols (d y).
               store s' (elem_addr y b i j)
               = al * store s (elem_addr y b i j)
                 + prod_elem (store s) l (if 1 < bd (d l) then b else 0) r b i j))
       \<and> (\<forall>b<bd (d y). \<forall>i<rows (d y). \<forall>j<cols (d y).
               store (MatrixMultiply_GPU dev l r y al s) (elem_addr y b i j)
               = al * store s (elem_addr y b i j)
                 + prod_elem (store s) l (if 1 < bd (d l) then b else 0) r b i j)"
proof (intro conjI exI allI impI)
  show "MatrixMultiply_CPU l r y al s = Some (mm_sgemm l r y kSCALAR_ONE (scale_tbvec al y s))"
    using assms(1) by (rule MatrixMultiply_CPU_sgemm)
next
  fix b i j assume "b < bd (d y)" "i < rows (d y)" "j < cols (d y)"
  then show "store (mm_sgemm l r y kSCALAR_ONE (scale_tbvec al y s)) (elem_addr y b i j)
        = al * store s (elem_addr y b i j)
          + prod_elem (store s) l (if 1 < bd (d l) then b else 0) r b i j"
    by (rule MatrixMultiply_CPU_post[OF assms])
next
  fix b i j assume "b < bd (d y)" "i < rows (d y)" "j < cols (d y)"
  then show "store (MatrixMultiply_GPU dev l r y al s) (elem_addr y b i j)
        = al * store s (elem_addr y b i j)
          + prod_elem (store s) l (if 1 < bd (d l) then b else 0) r b i j"
    by (rule MatrixMultiply_GPU_post[OF assms])
qed

text \<open>
  The theorem at a concrete call: \<open>L\<close> at addresses 0 to 3, \<open>R\<close> at 4 to 7, \<open>Y\<close> at 8 to
  11, \<open>\<alpha> = 3\<close>, every address holding its own number. Element \<open>(1, 0)\<close> of batch element
  1 of \<open>Y\<close> lies at address 11 and becomes \<open>3 \<cdot> 11 + (1 \<cdot> 6 + 3 \<cdot> 7)\<close>.
\<close>

theorem MatrixMultiply_contract_witness:
  "MatrixMultiply_shapes fwd_l fwd_r fwd_y \<and> no_overlap fwd_l fwd_y \<and> no_overlap fwd_r fwd_y \<and>
   store (the (MatrixMultiply_CPU fwd_l fwd_r fwd_y 3 machine0)) 11 = 3 * 11 + (1 * 6 + 3 * 7) \<and>
   store (MatrixMultiply_GPU dev0 fwd_l fwd_r fwd_y 3 machine0) 11 = 3 * 11 + (1 * 6 + 3 * 7)"
proof -
  note h = fwd_hyps(1-3)
  have e: "elem_addr fwd_y (Suc 0) (Suc 0) 0 = 11" by code_simp
  have q: "Suc 0 < bd (d fwd_y)" "Suc 0 < rows (d fwd_y)" "0 < cols (d fwd_y)" "\<not> Suc 0 < bd (d fwd_l)"
    by (simp_all add: fwd_l_def fwd_y_def mk_tensor_def)
  from MatrixMultiply_contract[OF h, of 3 machine0 dev0]
  obtain s' where s': "MatrixMultiply_CPU fwd_l fwd_r fwd_y 3 machine0 = Some s'"
     and c: "store s' (elem_addr fwd_y (Suc 0) (Suc 0) 0)
               = 3 * store machine0 (elem_addr fwd_y (Suc 0) (Suc 0) 0)
                 + prod_elem (store machine0) fwd_l (if 1 < bd (d fwd_l) then Suc 0 else 0) fwd_r (Suc 0) (Suc 0) 0"
     and g: "store (MatrixMultiply_GPU dev0 fwd_l fwd_r fwd_y 3 machine0)
                   (elem_addr fwd_y (Suc 0) (Suc 0) 0)
               = 3 * store machine0 (elem_addr fwd_y (Suc 0) (Suc 0) 0)
                 + prod_elem (store machine0) fwd_l (if 1 < bd (d fwd_l) then Suc 0 else 0) fwd_r (Suc 0) (Suc 0) 0"
    using q by auto
  have p: "prod_elem (store machine0) fwd_l 0 fwd_r (Suc 0) (Suc 0) 0 = 1 * 6 + 3 * 7"
    by code_simp
  have m: "store machine0 11 = 11" by (simp add: machine0_def)
  show ?thesis using h s' c g by (simp add: e q p m)
qed

section \<open>Forward multiply: the wide-matrix path against the per-batch loop\<close>

text \<open>
  Claim C2. For \<open>L\<close> with one batch element and \<open>R\<close>, \<open>Y\<close> with \<open>k > 1\<close> batch elements
  (valid shapes, the output buffer apart from the operands), \<^verbatim>\<open>MatrixMultiply\<close> issues
  exactly one multiply primitive (the wide-matrix path; the loop would issue \<open>k\<close>), and
  the store it leaves is the store that \<open>k\<close> independent single-matrix multiplies of
  \<open>L\<close> against each \<open>R[b]\<close>, each accumulated into \<open>Y[b]\<close> with the same \<open>\<alpha>\<close>, leave.
  This holds for the CPU version and for the accelerator version.
\<close>

theorem MatrixMultiply_wide_refines_per_batch:
  fixes al :: "'a::comm_semiring_1"
  assumes sh: "MatrixMultiply_shapes l r y" and l1: "bd (d l) = 1" and k: "1 < bd (d y)"
      and nl: "no_overlap l y" and nr: "no_overlap r y"
  shows "(\<exists>s'. MatrixMultiply_CPU l r y al s = Some s' \<and>
               gemm_calls s' = gemm_calls s + 1 \<and>
               store s' = per_batch_multiply al l r y (store s))
       \<and> gemm_calls (MatrixMultiply_GPU dev l r y al s) = gemm_calls s + 1
       \<and> store (MatrixMultiply_GPU dev l r y al s) = per_batch_multiply al l r y (store s)"
proof -
  have rb: "bd (d r) = bd (d y)" using sh by (simp add: MatrixMultiply_shapes_def)
  let ?c = "mm_sgemm l r y kSCALAR_ONE (scale_tbvec al y s)"
  have c1: "MatrixMultiply_CPU l r y al s = Some ?c"
    using sh by (rule MatrixMultiply_CPU_sgemm)
  have c2: "gemm_calls ?c = gemm_calls s + 1"
    using l1 rb by (simp add: mm_sgemm_calls_wide)
  have c3: "store ?c = per_batch_multiply al l r y (store s)"
  proof (rule store_eqI[where y=y])
    fix x assume "\<not> in_buf y x"
    then show "store ?c x = per_batch_multiply al l r y (store s) x"
      by (simp add: MatrixMultiply_CPU_frame per_batch_multiply_frame)
  next
    fix b i j assume "b < bd (d y)" "i < rows (d y)" "j < cols (d y)"
    then show "store ?c (elem_addr y b i j) = per_batch_multiply al l r y (store s) (elem_addr y b i j)"
      using MatrixMultiply_CPU_post[OF sh nl nr, of b i j al s]
            per_batch_multiply_post[OF sh l1 nl nr, of b i j al s]
      using l1 by simp
  qed
  have g2: "gemm_calls (MatrixMultiply_GPU dev l r y al s) = gemm_calls s + 1"
    using l1 rb by (simp add: MatrixMultiply_GPU_sgemm mm_sgemm_calls_wide cudaSetDevice_def)
  have g3: "store (MatrixMultiply_GPU dev l r y al s) = per_batch_multiply al l r y (store s)"
  proof (rule store_eqI[where y=y])
    fix x assume "\<not> in_buf y x"
    then show "store (MatrixMultiply_GPU dev l r y al s) x = per_batch_multiply al l r y (store s) x"
      by (simp add: MatrixMultiply_GPU_frame per_batch_multiply_frame)
  next
    fix b i j assume "b < bd (d y)" "i < rows (d y)" "j < cols (d y)"
    then show "store (MatrixMultiply_GPU dev l r y al s) (elem_addr y b i j)
               = per_batch_multiply al l r y (store s) (elem_addr y b i j)"
      using MatrixMultiply_GPU_post[OF sh nl nr, of b i j dev al s]
            per_batch_multiply_post[OF sh l1 nl nr, of b i j al s]
      using l1 by simp
  qed
  show ?thesis using c1 c2 c3 g2 g3 by simp
qed

text \<open>
  The theorem at the concrete call of the previous section (\<open>k = 2\<close>): one primitive is
  issued, and address 11 holds 60 afterwards.
\<close>

theorem MatrixMultiply_wide_refines_per_batch_witness:
  "MatrixMultiply_shapes fwd_l fwd_r fwd_y \<and> bd (d fwd_l) = 1 \<and> 1 < bd (d fwd_y) \<and>
   no_overlap fwd_l fwd_y \<and> no_overlap fwd_r fwd_y \<and>
   gemm_calls (the (MatrixMultiply_CPU fwd_l fwd_r fwd_y 3 machine0)) = 1 \<and>
   store (the (MatrixMultiply_CPU fwd_l fwd_r fwd_y 3 machine0)) 11 = 60 \<and>
   gemm_calls (MatrixMultiply_GPU dev0 fwd_l fwd_r fwd_y 3 machine0) = 1 \<and>
   store (MatrixMultiply_GPU dev0 fwd_l fwd_r fwd_y 3 machine0) 11 = 60"
proof -
  have p: "per_batch_multiply 3 fwd_l fwd_r fwd_y (store machine0) 11 = 60"
    by code_simp
  have z: "gemm_calls machine0 = 0" by (simp add: machine0_def)
  show ?thesis
    using MatrixMultiply_wide_refines_per_batch[OF fwd_hyps(1,4,5,2,3), of 3 machine0 dev0]
          fwd_hyps p z
    by auto
qed

section \<open>Right-transpose accumulate: the batch sum as one wide multiply\<close>

text \<open>
  Claim C3. For \<open>L\<close> and \<open>R\<close> with the same batch count \<open>k > 1\<close> and \<open>Y\<close> with one batch
  element (the columns of \<open>L\<close> are the columns of \<open>R\<close>, \<open>Y\<close> has the rows of \<open>L\<close> as rows
  and the rows of \<open>R\<close> as columns; the output buffer apart from the operands),
  \<^verbatim>\<open>MatrixMultiplyTranspAcc\<close> issues one multiply primitive, and afterwards \<open>Y\<close> holds its
  prior contents plus the sum over \<open>b < k\<close> of \<open>L[b] \<cdot> R[b]\<^sup>T\<close>. This holds for the CPU version
  and for the accelerator version.
\<close>

theorem MatrixMultiplyTranspAcc_batch_sum:
  fixes s :: "'a::comm_semiring_1 machine"
  assumes sh: "MultiplyTransp_shapes l r y"
      and eq: "bd (d l) = bd (d r)" and k: "1 < bd (d l)" and y1: "bd (d y) = 1"
      and nl: "no_overlap l y" and nr: "no_overlap r y"
  shows "(\<exists>s'. MatrixMultiplyTranspAcc_CPU l r y s = Some s' \<and>
               gemm_calls s' = gemm_calls s + 1 \<and>
               (\<forall>i<rows (d y). \<forall>j<cols (d y).
                  store s' (elem_addr y 0 i j)
                  = store s (elem_addr y 0 i j)
                    + (\<Sum>b<bd (d l). prod_elem_NT (store s) l b r b i j)))
       \<and> gemm_calls (MatrixMultiplyTranspAcc_GPU dev l r y s) = gemm_calls s + 1
       \<and> (\<forall>i<rows (d y). \<forall>j<cols (d y).
             store (MatrixMultiplyTranspAcc_GPU dev l r y s) (elem_addr y 0 i j)
             = store s (elem_addr y 0 i j)
               + (\<Sum>b<bd (d l). prod_elem_NT (store s) l b r b i j))"
proof -
  have c: "MatrixMultiplyTranspAcc_CPU l r y s = Some (MatrixMultiplyTranspAcc_GPU dev l r y s)"
    using sh by (rule MatrixMultiplyTranspAcc_CPU_GPU)
  have n: "gemm_calls (MatrixMultiplyTranspAcc_GPU dev l r y s) = gemm_calls s + 1"
    using eq y1 by (simp add: MultiplyTranspAcc_calls)
  have p: "\<forall>i<rows (d y). \<forall>j<cols (d y).
             store (MatrixMultiplyTranspAcc_GPU dev l r y s) (elem_addr y 0 i j)
             = store s (elem_addr y 0 i j)
               + (\<Sum>b<bd (d l). prod_elem_NT (store s) l b r b i j)"
    using MultiplyTranspAcc_wide[OF sh y1 eq] by blast
  show ?thesis using c n p by simp
qed

text \<open>
  The theorem at a concrete call: \<open>L\<close> at addresses 0 to 3, \<open>R\<close> at 4 to 7, \<open>Y\<close> at 8 to
  11, every address holding its own number. Element \<open>(1, 0)\<close> of \<open>Y\<close> lies at address 9 and
  becomes \<open>9 + (1 \<cdot> 4 + 3 \<cdot> 6)\<close>.
\<close>

theorem MatrixMultiplyTranspAcc_batch_sum_witness:
  "MultiplyTransp_shapes rt_l rt_r rt_y \<and> bd (d rt_l) = bd (d rt_r) \<and> 1 < bd (d rt_l) \<and>
   bd (d rt_y) = 1 \<and> no_overlap rt_l rt_y \<and> no_overlap rt_r rt_y \<and>
   gemm_calls (the (MatrixMultiplyTranspAcc_CPU rt_l rt_r rt_y machine0)) = 1 \<and>
   store (the (MatrixMultiplyTranspAcc_CPU rt_l rt_r rt_y machine0)) 9 = 9 + (1 * 4 + 3 * 6) \<and>
   gemm_calls (MatrixMultiplyTranspAcc_GPU dev0 rt_l rt_r rt_y machine0) = 1 \<and>
   store (MatrixMultiplyTranspAcc_GPU dev0 rt_l rt_r rt_y machine0) 9 = 9 + (1 * 4 + 3 * 6)"
proof -
  have e: "elem_addr rt_y 0 (Suc 0) 0 = 9" by code_simp
  have q: "Suc 0 < rows (d rt_y)" "0 < cols (d rt_y)"
    by (simp_all add: rt_y_def mk_tensor_def)
  have p: "store machine0 9 + (\<Sum>b<bd (d rt_l). prod_elem_NT (store machine0) rt_l b rt_r b (Suc 0) 0)
           = 9 + (1 * 4 + 3 * 6)"
    by code_simp
  have z: "gemm_calls machine0 = 0" by (simp add: machine0_def)
  from MatrixMultiplyTranspAcc_batch_sum[OF rt_hyps, of machine0 dev0]
  obtain s' where s': "MatrixMultiplyTranspAcc_CPU rt_l rt_r rt_y machine0 = Some s'"
    and cn: "gemm_calls s' = gemm_calls machine0 + 1"
    and cp: "\<forall>i<rows (d rt_y). \<forall>j<cols (d rt_y). store s' (elem_addr rt_y 0 i j)
               = store machine0 (elem_addr rt_y 0 i j)
                 + (\<Sum>b<bd (d rt_l). prod_elem_NT (store machine0) rt_l b rt_r b i j)"
    and gn: "gemm_calls (MatrixMultiplyTranspAcc_GPU dev0 rt_l rt_r rt_y machine0)
               = gemm_calls machine0 + 1"
    and gp: "\<forall>i<rows (d rt_y). \<forall>j<cols (d rt_y).
               store (MatrixMultiplyTranspAcc_GPU dev0 rt_l rt_r rt_y machine0) (elem_addr rt_y 0 i j)
               = store machine0 (elem_addr rt_y 0 i j)
                 + (\<Sum>b<bd (d rt_l). prod_elem_NT (store machine0) rt_l b rt_r b i j)"
    by blast
  have c9: "store s' 9 = 9 + (1 * 4 + 3 * 6)"
    using cp[rule_format, OF q] unfolding e p .
  have g9: "store (MatrixMultiplyTranspAcc_GPU dev0 rt_l rt_r rt_y machine0) 9 = 9 + (1 * 4 + 3 * 6)"
    using gp[rule_format, OF q] unfolding e p .
  show ?thesis using rt_hyps s' cn gn c9 g9 by (simp add: z)
qed
section \<open>Left-transpose accumulate: the contract\<close>




section \<open>The CPU version and the accelerator version agree\<close>

text \<open>
  Claim C5. For each entry point and identical inputs (valid shapes, the output buffer apart
  from the operands), the CPU code path and the accelerator code path produce the same
  result under exact arithmetic, for every combination of batch counts, whichever path
  it takes (a broadcast operand, equal batch counts, or batch counts that send the call to
  the loop). For \<^verbatim>\<open>MatrixMultiply\<close> the two versions leave the same store and issue the same
  number of multiply primitives (the accelerator version also selects the device; the
  batch counts of the operands are at least one). For the two transposed variants the two
  versions leave the same machine state.
\<close>

theorem CPU_and_accelerator_agree:
  fixes s :: "'a::comm_semiring_1 machine"
  assumes nl: "no_overlap l y" and nr: "no_overlap r y"
  shows "(MatrixMultiply_dims l r y \<and> 0 < bd (d l) \<and> 0 < bd (d r) \<longrightarrow>
            (\<exists>s'. MatrixMultiply_CPU l r y al s = Some s' \<and>
                  store s' = store (MatrixMultiply_GPU dev l r y al s) \<and>
                  gemm_calls s' = gemm_calls (MatrixMultiply_GPU dev l r y al s)))
       \<and> (TranspMultiply_shapes l r y \<longrightarrow>
            MatrixTranspMultiplyAcc_CPU l r y s = Some (MatrixTranspMultiplyAcc_GPU dev l r y s))
       \<and> (MultiplyTransp_shapes l r y \<longrightarrow>
            MatrixMultiplyTranspAcc_CPU l r y s = Some (MatrixMultiplyTranspAcc_GPU dev l r y s))"
proof (intro conjI impI)
  assume a: "MatrixMultiply_dims l r y \<and> 0 < bd (d l) \<and> 0 < bd (d r)"
  then have sh: "MatrixMultiply_dims l r y" and pos: "0 < bd (d l)" "0 < bd (d r)" by simp_all
  let ?c = "mm_sgemm l r y kSCALAR_ONE (scale_tbvec al y s)"
  have c1: "MatrixMultiply_CPU l r y al s = Some ?c"
    using sh by (rule MatrixMultiply_CPU_sgemm_dims)
  have c2: "store ?c = store (MatrixMultiply_GPU dev l r y al s)"
    using sh nl nr pos by (rule MatrixMultiply_CPU_GPU_store)
  have c3: "gemm_calls ?c = gemm_calls (MatrixMultiply_GPU dev l r y al s)"
    by (simp add: MatrixMultiply_GPU_sgemm mm_sgemm_def for_upto_calls cudaSetDevice_def)
  show "\<exists>s'. MatrixMultiply_CPU l r y al s = Some s' \<and>
             store s' = store (MatrixMultiply_GPU dev l r y al s) \<and>
             gemm_calls s' = gemm_calls (MatrixMultiply_GPU dev l r y al s)"
    using c1 c2 c3 by blast
next
  assume "TranspMultiply_shapes l r y"
  then show "MatrixTranspMultiplyAcc_CPU l r y s = Some (MatrixTranspMultiplyAcc_GPU dev l r y s)"
    by (rule MatrixTranspMultiplyAcc_CPU_GPU)
next
  assume "MultiplyTransp_shapes l r y"
  then show "MatrixMultiplyTranspAcc_CPU l r y s = Some (MatrixMultiplyTranspAcc_GPU dev l r y s)"
    by (rule MatrixMultiplyTranspAcc_CPU_GPU)
qed

text \<open>
  The theorem at three concrete calls: the forward multiply with a broadcast left operand,
  the left-transpose accumulate on the looped path and the right-transpose accumulate on
  the wide path.
\<close>

theorem CPU_and_accelerator_agree_witness:
  "no_overlap fwd_l fwd_y \<and> no_overlap fwd_r fwd_y \<and> MatrixMultiply_dims fwd_l fwd_r fwd_y \<and>
   0 < bd (d fwd_l) \<and> 0 < bd (d fwd_r) \<and>
   no_overlap lt_l lt_y \<and> no_overlap lt_r lt_y \<and> TranspMultiply_shapes lt_l lt_r lt_y \<and>
   no_overlap rt_l rt_y \<and> no_overlap rt_r rt_y \<and> MultiplyTransp_shapes rt_l rt_r rt_y \<and>
   MatrixMultiply_CPU fwd_l fwd_r fwd_y 3 machine0 \<noteq> None \<and>
   store (the (MatrixMultiply_CPU fwd_l fwd_r fwd_y 3 machine0))
     = store (MatrixMultiply_GPU dev0 fwd_l fwd_r fwd_y 3 machine0) \<and>
   MatrixTranspMultiplyAcc_CPU lt_l lt_r lt_y machine0
     = Some (MatrixTranspMultiplyAcc_GPU dev0 lt_l lt_r lt_y machine0) \<and>
   MatrixMultiplyTranspAcc_CPU rt_l rt_r rt_y machine0
     = Some (MatrixMultiplyTranspAcc_GPU dev0 rt_l rt_r rt_y machine0)"
proof -
  have dims: "MatrixMultiply_dims fwd_l fwd_r fwd_y"
    using fwd_hyps(1) by (simp add: MatrixMultiply_dims_def MatrixMultiply_shapes_def)
  from CPU_and_accelerator_agree[OF fwd_hyps(2,3), of 3 machine0 dev0, THEN conjunct1,
         rule_format, OF conjI[OF dims conjI[OF fwd_pos]]]
  obtain s' where s': "MatrixMultiply_CPU fwd_l fwd_r fwd_y 3 machine0 = Some s'"
    and st: "store s' = store (MatrixMultiply_GPU dev0 fwd_l fwd_r fwd_y 3 machine0)"
    by blast
  note t = CPU_and_accelerator_agree[OF lt_hyps(6,7), of 3 machine0 dev0, THEN conjunct2,
             THEN conjunct1, rule_format, OF lt_hyps(1)]
  note u = CPU_and_accelerator_agree[OF rt_hyps(5,6), of 3 machine0 dev0, THEN conjunct2,
             THEN conjunct2, rule_format, OF rt_hyps(1)]
  show ?thesis
    using dims fwd_pos fwd_hyps(2,3) lt_hyps(1,6,7) rt_hyps(1,5,6) s' st t u
    by simp
qed
section \<open>Forward multiply with scalar zero\<close>




section \<open>Only the output buffer is written\<close>

text \<open>
  Claim C7. Every call of any of the three entry points, in either version, changes the
  store only inside the buffer of \<open>Y\<close>: an address outside that buffer keeps its element,
  and so does every address of the buffer of \<open>L\<close> or of \<open>R\<close> when that buffer does not
  overlap the buffer of \<open>Y\<close>. (The batch count of \<open>Y\<close> is at least one, the invariant of
  the dimension descriptor.) The tensor descriptors are arguments passed by value and the
  entry points return the machine state only: no statement of the source assigns to a
  descriptor or a buffer pointer, so no tensor is created, resized or destroyed.
\<close>

theorem entry_points_write_only_output:
  fixes s :: "'a::comm_semiring_1 machine"
  assumes pos: "0 < bd (d y)"
      and x: "\<not> in_buf y x \<or> (in_buf l x \<and> no_overlap l y) \<or> (in_buf r x \<and> no_overlap r y)"
  shows "store (MatrixMultiply_GPU dev l r y al s) x = store s x
       \<and> store (MatrixTranspMultiplyAcc_GPU dev l r y s) x = store s x
       \<and> store (MatrixMultiplyTranspAcc_GPU dev l r y s) x = store s x
       \<and> (\<forall>s'. MatrixMultiply_CPU l r y al s = Some s' \<longrightarrow> store s' x = store s x)
       \<and> (\<forall>s'. MatrixTranspMultiplyAcc_CPU l r y s = Some s' \<longrightarrow> store s' x = store s x)
       \<and> (\<forall>s'. MatrixMultiplyTranspAcc_CPU l r y s = Some s' \<longrightarrow> store s' x = store s x)"
proof -
  have out: "\<not> in_buf y x" using x no_overlap_not_in_buf by blast
  show ?thesis
  proof (intro conjI allI impI)
    show "store (MatrixMultiply_GPU dev l r y al s) x = store s x"
      by (rule MatrixMultiply_GPU_frame[OF out])
    show "store (MatrixTranspMultiplyAcc_GPU dev l r y s) x = store s x"
      by (rule MatrixTranspMultiplyAcc_GPU_frame[OF pos out])
    show "store (MatrixMultiplyTranspAcc_GPU dev l r y s) x = store s x"
      by (rule MatrixMultiplyTranspAcc_GPU_frame[OF pos out])
  next
    fix s' assume "MatrixMultiply_CPU l r y al s = Some s'"
    then show "store s' x = store s x" by (rule MatrixMultiply_CPU_result_frame[OF pos out])
  next
    fix s' assume "MatrixTranspMultiplyAcc_CPU l r y s = Some s'"
    then show "store s' x = store s x"
      by (rule MatrixTranspMultiplyAcc_CPU_result_frame[OF pos out])
  next
    fix s' assume "MatrixMultiplyTranspAcc_CPU l r y s = Some s'"
    then show "store s' x = store s x"
      by (rule MatrixMultiplyTranspAcc_CPU_result_frame[OF pos out])
  qed
qed

text \<open>
  The theorem at three concrete calls: an address of \<open>L\<close> for the forward multiply, an
  address of \<open>R\<close> for the left-transpose accumulate, and an address outside all buffers for
  the right-transpose accumulate.
\<close>

theorem entry_points_write_only_output_witness:
  "0 < bd (d fwd_y) \<and> in_buf fwd_l 2 \<and> no_overlap fwd_l fwd_y \<and>
   store (MatrixMultiply_GPU dev0 fwd_l fwd_r fwd_y 3 machine0) 2 = 2 \<and>
   MatrixMultiply_CPU fwd_l fwd_r fwd_y 3 machine0 \<noteq> None \<and>
   store (the (MatrixMultiply_CPU fwd_l fwd_r fwd_y 3 machine0)) 2 = 2 \<and>
   0 < bd (d lt_y) \<and> in_buf lt_r 4 \<and> no_overlap lt_r lt_y \<and>
   store (MatrixTranspMultiplyAcc_GPU dev0 lt_l lt_r lt_y machine0) 4 = 4 \<and>
   MatrixTranspMultiplyAcc_CPU lt_l lt_r lt_y machine0 \<noteq> None \<and>
   store (the (MatrixTranspMultiplyAcc_CPU lt_l lt_r lt_y machine0)) 4 = 4 \<and>
   0 < bd (d rt_y) \<and> \<not> in_buf rt_y 20 \<and>
   store (MatrixMultiplyTranspAcc_GPU dev0 rt_l rt_r rt_y machine0) 20 = 20 \<and>
   MatrixMultiplyTranspAcc_CPU rt_l rt_r rt_y machine0 \<noteq> None \<and>
   store (the (MatrixMultiplyTranspAcc_CPU rt_l rt_r rt_y machine0)) 20 = 20"
proof -
  have x1: "in_buf fwd_l 2" and x2: "in_buf lt_r 4" and x3: "\<not> in_buf rt_y 20"
    by (simp_all add: in_buf_def fwd_l_def lt_r_def rt_y_def tensor_defs)
  have m: "store machine0 2 = 2" "store machine0 4 = 4" "store machine0 20 = 20"
    by (simp_all add: machine0_def)
  obtain s1 where s1: "MatrixMultiply_CPU fwd_l fwd_r fwd_y 3 machine0 = Some s1"
    using MatrixMultiply_CPU_sgemm[OF fwd_hyps(1)] by blast
  obtain s2 where s2: "MatrixTranspMultiplyAcc_CPU lt_l lt_r lt_y machine0 = Some s2"
    using MatrixTranspMultiplyAcc_CPU_GPU[OF lt_hyps(1)] by blast
  obtain s3 where s3: "MatrixMultiplyTranspAcc_CPU rt_l rt_r rt_y machine0 = Some s3"
    using MatrixMultiplyTranspAcc_CPU_GPU[OF rt_hyps(1)] by blast
  have a: "\<not> in_buf fwd_y 2 \<or> (in_buf fwd_l 2 \<and> no_overlap fwd_l fwd_y)
             \<or> (in_buf fwd_r 2 \<and> no_overlap fwd_r fwd_y)"
    using x1 fwd_hyps(2) by simp
  have b: "\<not> in_buf lt_y 4 \<or> (in_buf lt_l 4 \<and> no_overlap lt_l lt_y)
             \<or> (in_buf lt_r 4 \<and> no_overlap lt_r lt_y)"
    using x2 lt_hyps(7) by simp
  have c: "\<not> in_buf rt_y 20 \<or> (in_buf rt_l 20 \<and> no_overlap rt_l rt_y)
             \<or> (in_buf rt_r 20 \<and> no_overlap rt_r rt_y)"
    using x3 by simp
  show ?thesis
    using entry_points_write_only_output[OF rt_hyps_pos(4) a, of dev0 3 machine0]
          entry_points_write_only_output[OF rt_hyps_pos(5) b, of dev0 3 machine0]
          entry_points_write_only_output[OF rt_hyps_pos(3) c, of dev0 3 machine0]
          s1 s2 s3 x1 x2 x3 fwd_hyps(2) lt_hyps(7) rt_hyps_pos(3,4,5)
    by (simp add: m)
qed
section \<open>The concrete scenario of the right-transpose accumulate\<close>

text \<open>
  Claim C8 gives \<^verbatim>\<open>MatrixMultiplyTranspAcc\<close> the inputs \<open>L\<close> of shape 3 \<times> 4 with two batch
  elements, \<open>R\<close> of shape 3 \<times> 1 with two and \<open>Y\<close> of shape 4 \<times> 1 with one. These shapes
  are not shapes of the right-transpose product: \<open>L\<close> has four columns and \<open>R\<close> has one, so
  that \<open>L[b] \<cdot> R[b]\<^sup>T\<close> (3 \<times> 4 times 1 \<times> 3) does not exist, and its shape would be 3 \<times> 3,
  not the 4 \<times> 1 of \<open>Y\<close>. The call is on the wide path. The CPU version multiplies the
  3 \<times> 8 view of \<open>L\<close> by the transpose of the 3 \<times> 2 view of \<open>R\<close>, a product with inner
  dimensions 8 and 2, which has no value. The accelerator version asks the library for an
  \<open>op(A)\<close> of \<open>m = 4\<close> rows (the rows of \<open>Y\<close>) out of a buffer with leading dimension 3
  (the rows of \<open>L\<close>); the library refuses a leading dimension below the number of rows.
\<close>

theorem MatrixMultiplyTranspAcc_scenario_counterexample:
  "cols (d sc_l) = 4 \<and> cols (d sc_r) = 1 \<and> rows (d sc_l) = 3 \<and> rows (d sc_y) = 4 \<and>
   \<not> MultiplyTransp_shapes sc_l sc_r sc_y \<and>
   bd (d sc_y) = 1 \<and> bd (d sc_l) = bd (d sc_r) \<and>
   ecols (Ref (colbatch_matrix sc_l)) = 8 \<and>
   erows (Transpose (Ref (colbatch_matrix sc_r))) = 2 \<and>
   MatrixMultiplyTranspAcc_CPU sc_l sc_r sc_y machine0 = None"
  by (simp add: MatrixMultiplyTranspAcc_CPU_def noalias_add_assign_def colbatch_matrix_def
                deref_def sc_l_def sc_r_def sc_y_def tensor_defs)

text \<open>
  Claim C8, amended: the scenario with the shapes of \<open>L\<close> and \<open>R\<close> adjusted to the
  right-transpose product, as the sentence of the specification has it. For \<open>L\<close> of shape
  4 \<times> 3 with two batch elements, \<open>R\<close> of shape 1 \<times> 3 with two and \<open>Y\<close> of shape 4 \<times> 1
  with one (the output buffer apart from the operands), \<^verbatim>\<open>MatrixMultiplyTranspAcc\<close> issues
  one multiply primitive and leaves in \<open>Y\<close> its prior contents plus
  \<open>L[0] \<cdot> R[0]\<^sup>T + L[1] \<cdot> R[1]\<^sup>T\<close>, in both versions.
\<close>

theorem MatrixMultiplyTranspAcc_scenario:
  fixes s :: "'a::comm_semiring_1 machine"
  assumes dl: "d l = \<lparr>rows = 4, cols = 3, bd = 2\<rparr>"
      and dr: "d r = \<lparr>rows = 1, cols = 3, bd = 2\<rparr>"
      and dy: "d y = \<lparr>rows = 4, cols = 1, bd = 1\<rparr>"
      and nl: "no_overlap l y" and nr: "no_overlap r y"
  shows "(\<exists>s'. MatrixMultiplyTranspAcc_CPU l r y s = Some s' \<and>
               gemm_calls s' = gemm_calls s + 1 \<and>
               (\<forall>i<4. store s' (elem_addr y 0 i 0)
                       = store s (elem_addr y 0 i 0)
                         + (prod_elem_NT (store s) l 0 r 0 i 0
                            + prod_elem_NT (store s) l 1 r 1 i 0)))
       \<and> gemm_calls (MatrixMultiplyTranspAcc_GPU dev l r y s) = gemm_calls s + 1
       \<and> (\<forall>i<4. store (MatrixMultiplyTranspAcc_GPU dev l r y s) (elem_addr y 0 i 0)
                 = store s (elem_addr y 0 i 0)
                   + (prod_elem_NT (store s) l 0 r 0 i 0
                      + prod_elem_NT (store s) l 1 r 1 i 0))"
proof -
  have sh: "MultiplyTransp_shapes l r y"
    by (simp add: MultiplyTransp_shapes_def dl dr dy)
  have y1: "bd (d y) = 1" and eq: "bd (d l) = bd (d r)" and l2: "bd (d l) = 2"
    and ry: "rows (d y) = 4" and cy: "0 < cols (d y)"
    by (simp_all add: dl dr dy)
  have c: "MatrixMultiplyTranspAcc_CPU l r y s = Some (MatrixMultiplyTranspAcc_GPU dev l r y s)"
    using sh by (rule MatrixMultiplyTranspAcc_CPU_GPU)
  have n: "gemm_calls (MatrixMultiplyTranspAcc_GPU dev l r y s) = gemm_calls s + 1"
    unfolding MultiplyTranspAcc_calls using y1 eq by simp
  have p: "\<forall>i<4. store (MatrixMultiplyTranspAcc_GPU dev l r y s) (elem_addr y 0 i 0)
                 = store s (elem_addr y 0 i 0)
                   + (prod_elem_NT (store s) l 0 r 0 i 0
                      + prod_elem_NT (store s) l 1 r 1 i 0)"
  proof (intro allI impI)
    fix i :: nat assume "i < 4"
    then have i: "i < rows (d y)" using ry by simp
    show "store (MatrixMultiplyTranspAcc_GPU dev l r y s) (elem_addr y 0 i 0)
          = store s (elem_addr y 0 i 0)
            + (prod_elem_NT (store s) l 0 r 0 i 0 + prod_elem_NT (store s) l 1 r 1 i 0)"
      unfolding MultiplyTranspAcc_wide[OF sh y1 eq i cy] l2 by (simp add: sum_lessThan_2)
  qed
  show ?thesis
    unfolding c by (intro conjI exI[of _ "MatrixMultiplyTranspAcc_GPU dev l r y s"] refl n p)
qed

text \<open>
  The theorem on the machine whose store holds the address at every address, with \<open>L\<close> at
  address 0, \<open>R\<close> at 24 and \<open>Y\<close> at 30: the first element of \<open>Y\<close> becomes
  \<open>30 + (308 + 1352)\<close>, where \<open>308 = 0 \<cdot> 24 + 4 \<cdot> 25 + 8 \<cdot> 26\<close> and
  \<open>1352 = 12 \<cdot> 27 + 16 \<cdot> 28 + 20 \<cdot> 29\<close>.
\<close>

theorem MatrixMultiplyTranspAcc_scenario_witness:
  "d adj_l = \<lparr>rows = 4, cols = 3, bd = 2\<rparr> \<and> d adj_r = \<lparr>rows = 1, cols = 3, bd = 2\<rparr> \<and>
   d sc_y = \<lparr>rows = 4, cols = 1, bd = 1\<rparr> \<and> no_overlap adj_l sc_y \<and> no_overlap adj_r sc_y \<and>
   gemm_calls (the (MatrixMultiplyTranspAcc_CPU adj_l adj_r sc_y machine0)) = 1 \<and>
   store (the (MatrixMultiplyTranspAcc_CPU adj_l adj_r sc_y machine0)) 30 = 30 + (308 + 1352) \<and>
   gemm_calls (MatrixMultiplyTranspAcc_GPU dev0 adj_l adj_r sc_y machine0) = 1 \<and>
   store (MatrixMultiplyTranspAcc_GPU dev0 adj_l adj_r sc_y machine0) 30 = 30 + (308 + 1352)"
proof -
  have h: "d adj_l = \<lparr>rows = 4, cols = 3, bd = 2\<rparr>" "d adj_r = \<lparr>rows = 1, cols = 3, bd = 2\<rparr>"
          "d sc_y = \<lparr>rows = 4, cols = 1, bd = 1\<rparr>" "no_overlap adj_l sc_y" "no_overlap adj_r sc_y"
    by (simp_all add: adj_l_def adj_r_def sc_y_def tensor_defs)
  have e: "elem_addr sc_y 0 0 0 = 30" by code_simp
  have q: "(0::nat) < 4" by simp
  have z: "gemm_calls machine0 + 1 = 1" by (simp add: machine0_def)
  have p: "store machine0 30
           + (prod_elem_NT (store machine0) adj_l 0 adj_r 0 0 0
              + prod_elem_NT (store machine0) adj_l 1 adj_r 1 0 0) = 30 + (308 + 1352)"
    by code_simp
  note t = MatrixMultiplyTranspAcc_scenario[OF h, of machine0 dev0]
  from t obtain s' where s': "MatrixMultiplyTranspAcc_CPU adj_l adj_r sc_y machine0 = Some s'"
    and cn: "gemm_calls s' = gemm_calls machine0 + 1"
    and cp: "\<forall>i<4. store s' (elem_addr sc_y 0 i 0)
                    = store machine0 (elem_addr sc_y 0 i 0)
                      + (prod_elem_NT (store machine0) adj_l 0 adj_r 0 i 0
                         + prod_elem_NT (store machine0) adj_l 1 adj_r 1 i 0)"
    by blast
  have gn: "gemm_calls (MatrixMultiplyTranspAcc_GPU dev0 adj_l adj_r sc_y machine0)
            = gemm_calls machine0 + 1"
    using t by blast
  have gp: "\<forall>i<4. store (MatrixMultiplyTranspAcc_GPU dev0 adj_l adj_r sc_y machine0)
                      (elem_addr sc_y 0 i 0)
                    = store machine0 (elem_addr sc_y 0 i 0)
                      + (prod_elem_NT (store machine0) adj_l 0 adj_r 0 i 0
                         + prod_elem_NT (store machine0) adj_l 1 adj_r 1 i 0)"
    using t by blast
  have t1: "gemm_calls (the (MatrixMultiplyTranspAcc_CPU adj_l adj_r sc_y machine0)) = 1"
           "store (the (MatrixMultiplyTranspAcc_CPU adj_l adj_r sc_y machine0)) 30
            = 30 + (308 + 1352)"
    unfolding s' option.sel using cn[unfolded z] cp[rule_format, OF q, unfolded e p] by blast+
  show ?thesis
    by (intro conjI h t1 gn[unfolded z] gp[rule_format, OF q, unfolded e p])
qed
section \<open>The looped path of the transposed variants with a single output slot\<close>

text \<open>
  Claim C9 says that when \<^verbatim>\<open>MatrixTranspMultiplyAcc\<close> or \<^verbatim>\<open>MatrixMultiplyTranspAcc\<close> takes
  the looped path while \<open>Y\<close> has one batch element and the larger of the batch counts of
  \<open>L\<close> and \<open>R\<close> is \<open>k > 1\<close>, all \<open>k\<close> products are added into the one slot of \<open>Y\<close>. It
  fails for a \<open>k\<close> that does not fit the \<^verbatim>\<open>int\<close> loop bound. With 1 \<times> 1 matrices, \<open>L\<close>
  with \<open>k = 2\<^sup>3\<^sup>1\<close> batch elements, \<open>R\<close> and \<open>Y\<close> with one, and the number one at every
  address, both entry points are on the looped path and the claim gives
  \<open>1 + 2\<^sup>3\<^sup>1 = 2147483649\<close>; \<open>max_b\<close> is negative, the loop does not run, no primitive is
  issued and \<open>Y\<close> keeps the value 1, in both versions of both entry points.
\<close>

theorem transposed_loops_int_bound_counterexample:
  "bd (d big_y) = 1 \<and> 1 < max (bd (d big_l)) (bd (d big_r)) \<and>
   no_overlap big_l big_y \<and> no_overlap big_r big_y \<and>
   TranspMultiply_shapes big_l big_r big_y \<and>
   \<not> (bd (d big_l) = 1 \<and> bd (d big_y) = bd (d big_r)) \<and>
   MultiplyTransp_shapes big_l big_r big_y \<and>
   \<not> (bd (d big_y) = 1 \<and> bd (d big_l) = bd (d big_r)) \<and>
   store machine_ones (elem_addr big_y 0 0 0)
     + batch_sum_TN (store machine_ones) big_l big_r (max (bd (d big_l)) (bd (d big_r))) 0 0
     = 2147483649 \<and>
   store machine_ones (elem_addr big_y 0 0 0)
     + batch_sum_NT (store machine_ones) big_l big_r (max (bd (d big_l)) (bd (d big_r))) 0 0
     = 2147483649 \<and>
   MatrixTranspMultiplyAcc_CPU big_l big_r big_y machine_ones \<noteq> None \<and>
   store (the (MatrixTranspMultiplyAcc_CPU big_l big_r big_y machine_ones))
     (elem_addr big_y 0 0 0) = 1 \<and>
   gemm_calls (the (MatrixTranspMultiplyAcc_CPU big_l big_r big_y machine_ones)) = 0 \<and>
   store (MatrixTranspMultiplyAcc_GPU dev0 big_l big_r big_y machine_ones)
     (elem_addr big_y 0 0 0) = 1 \<and>
   gemm_calls (MatrixTranspMultiplyAcc_GPU dev0 big_l big_r big_y machine_ones) = 0 \<and>
   MatrixMultiplyTranspAcc_CPU big_l big_r big_y machine_ones \<noteq> None \<and>
   store (the (MatrixMultiplyTranspAcc_CPU big_l big_r big_y machine_ones))
     (elem_addr big_y 0 0 0) = 1 \<and>
   gemm_calls (the (MatrixMultiplyTranspAcc_CPU big_l big_r big_y machine_ones)) = 0 \<and>
   store (MatrixMultiplyTranspAcc_GPU dev0 big_l big_r big_y machine_ones)
     (elem_addr big_y 0 0 0) = 1 \<and>
   gemm_calls (MatrixMultiplyTranspAcc_GPU dev0 big_l big_r big_y machine_ones) = 0"
proof -
  have h: "bd (d big_y) = 1" "1 < max (bd (d big_l)) (bd (d big_r))"
          "no_overlap big_l big_y" "no_overlap big_r big_y"
          "TranspMultiply_shapes big_l big_r big_y"
          "\<not> (bd (d big_l) = 1 \<and> bd (d big_y) = bd (d big_r))"
          "MultiplyTransp_shapes big_l big_r big_y"
          "\<not> (bd (d big_y) = 1 \<and> bd (d big_l) = bd (d big_r))"
    by (simp_all add: big_l_def big_r_def big_y_def tensor_defs)
  have k: "max (bd (d big_l)) (bd (d big_r)) = 2147483648"
    by (simp add: big_l_def big_r_def mk_tensor_def)
  have b1: "store machine_ones (elem_addr big_y 0 0 0) = 1" "gemm_calls machine_ones = 0"
    by (simp_all add: machine_ones_def)
  have s1: "store machine_ones (elem_addr big_y 0 0 0)
            + batch_sum_TN (store machine_ones) big_l big_r (max (bd (d big_l)) (bd (d big_r))) 0 0
            = 2147483649"
    unfolding k
    by (simp add: machine_ones_def batch_sum_TN_def prod_elem_TN_def big_l_def mk_tensor_def)
  have s2: "store machine_ones (elem_addr big_y 0 0 0)
            + batch_sum_NT (store machine_ones) big_l big_r (max (bd (d big_l)) (bd (d big_r))) 0 0
            = 2147483649"
    unfolding k
    by (simp add: machine_ones_def batch_sum_NT_def prod_elem_NT_def big_l_def mk_tensor_def)
  have g1: "MatrixTranspMultiplyAcc_GPU dev0 big_l big_r big_y machine_ones = machine_ones"
    by (simp add: MatrixTranspMultiplyAcc_GPU_def Let_def int_of_unsigned_def
                  big_l_def big_r_def big_y_def mk_tensor_def)
  have g2: "MatrixMultiplyTranspAcc_GPU dev0 big_l big_r big_y machine_ones = machine_ones"
    by (simp add: MatrixMultiplyTranspAcc_GPU_def Let_def int_of_unsigned_def
                  big_l_def big_r_def big_y_def mk_tensor_def)
  have c1: "MatrixTranspMultiplyAcc_CPU big_l big_r big_y machine_ones
            = Some (MatrixTranspMultiplyAcc_GPU dev0 big_l big_r big_y machine_ones)"
    using h(5) by (rule MatrixTranspMultiplyAcc_CPU_GPU)
  have c2: "MatrixMultiplyTranspAcc_CPU big_l big_r big_y machine_ones
            = Some (MatrixMultiplyTranspAcc_GPU dev0 big_l big_r big_y machine_ones)"
    using h(7) by (rule MatrixMultiplyTranspAcc_CPU_GPU)
  have n1: "MatrixTranspMultiplyAcc_CPU big_l big_r big_y machine_ones \<noteq> None"
    unfolding c1 by simp
  have n2: "MatrixMultiplyTranspAcc_CPU big_l big_r big_y machine_ones \<noteq> None"
    unfolding c2 by simp
  have t1: "store (the (MatrixTranspMultiplyAcc_CPU big_l big_r big_y machine_ones))
              (elem_addr big_y 0 0 0) = 1"
           "gemm_calls (the (MatrixTranspMultiplyAcc_CPU big_l big_r big_y machine_ones)) = 0"
           "store (MatrixTranspMultiplyAcc_GPU dev0 big_l big_r big_y machine_ones)
              (elem_addr big_y 0 0 0) = 1"
           "gemm_calls (MatrixTranspMultiplyAcc_GPU dev0 big_l big_r big_y machine_ones) = 0"
    unfolding c1 option.sel g1 by (rule b1)+
  have t2: "store (the (MatrixMultiplyTranspAcc_CPU big_l big_r big_y machine_ones))
              (elem_addr big_y 0 0 0) = 1"
           "gemm_calls (the (MatrixMultiplyTranspAcc_CPU big_l big_r big_y machine_ones)) = 0"
           "store (MatrixMultiplyTranspAcc_GPU dev0 big_l big_r big_y machine_ones)
              (elem_addr big_y 0 0 0) = 1"
           "gemm_calls (MatrixMultiplyTranspAcc_GPU dev0 big_l big_r big_y machine_ones) = 0"
    unfolding c2 option.sel g2 by (rule b1)+
  show ?thesis by (intro conjI h s1 s2 n1 n2 t1 t2)
qed

text \<open>
  Claim C9, amended: the same with \<open>1 < k < 2\<^sup>3\<^sup>1\<close>. When \<^verbatim>\<open>MatrixTranspMultiplyAcc\<close> or
  \<^verbatim>\<open>MatrixMultiplyTranspAcc\<close> takes the looped path while \<open>Y\<close> has one batch element, the
  larger of the batch counts of \<open>L\<close> and \<open>R\<close> is \<open>k\<close> with \<open>1 < k < 2\<^sup>3\<^sup>1\<close>, each of the
  two has \<open>k\<close> batch elements or one, and the output buffer is apart from the operands, all
  \<open>k\<close> products are added into the one slot of \<open>Y\<close>: afterwards \<open>Y\<close> holds its prior
  contents plus the sum over \<open>b = 0, \<dots>, k - 1\<close> of the per-batch products, an operand with
  one batch element being read again at every index (\<open>batch_sum_TN\<close>, \<open>batch_sum_NT\<close>).
  \<^verbatim>\<open>MatrixTranspMultiplyAcc\<close> is on the looped path for all such batch counts;
  \<^verbatim>\<open>MatrixMultiplyTranspAcc\<close> is on it when the batch counts of \<open>L\<close> and \<open>R\<close> differ. The
  loop issues \<open>k\<close> multiply primitives.
\<close>

theorem transposed_loops_accumulate_into_single_slot:
  fixes s :: "'a::comm_semiring_1 machine"
  assumes y1: "bd (d y) = 1"
      and k: "1 < max (bd (d l)) (bd (d r))"
      and small: "max (bd (d l)) (bd (d r)) < 2 ^ 31"
      and rl: "bd (d l) = 1 \<or> bd (d l) = max (bd (d l)) (bd (d r))"
      and rr: "bd (d r) = 1 \<or> bd (d r) = max (bd (d l)) (bd (d r))"
      and nl: "no_overlap l y" and nr: "no_overlap r y"
  shows "(TranspMultiply_shapes l r y \<longrightarrow>
            (\<exists>s'. MatrixTranspMultiplyAcc_CPU l r y s = Some s' \<and>
                  gemm_calls s' = gemm_calls s + max (bd (d l)) (bd (d r)) \<and>
                  (\<forall>i<rows (d y). \<forall>j<cols (d y).
                     store s' (elem_addr y 0 i j)
                     = store s (elem_addr y 0 i j)
                       + batch_sum_TN (store s) l r (max (bd (d l)) (bd (d r))) i j)) \<and>
            gemm_calls (MatrixTranspMultiplyAcc_GPU dev l r y s)
              = gemm_calls s + max (bd (d l)) (bd (d r)) \<and>
            (\<forall>i<rows (d y). \<forall>j<cols (d y).
               store (MatrixTranspMultiplyAcc_GPU dev l r y s) (elem_addr y 0 i j)
               = store s (elem_addr y 0 i j)
                 + batch_sum_TN (store s) l r (max (bd (d l)) (bd (d r))) i j))
       \<and> (MultiplyTransp_shapes l r y \<and> bd (d l) \<noteq> bd (d r) \<longrightarrow>
            (\<exists>s'. MatrixMultiplyTranspAcc_CPU l r y s = Some s' \<and>
                  gemm_calls s' = gemm_calls s + max (bd (d l)) (bd (d r)) \<and>
                  (\<forall>i<rows (d y). \<forall>j<cols (d y).
                     store s' (elem_addr y 0 i j)
                     = store s (elem_addr y 0 i j)
                       + batch_sum_NT (store s) l r (max (bd (d l)) (bd (d r))) i j)) \<and>
            gemm_calls (MatrixMultiplyTranspAcc_GPU dev l r y s)
              = gemm_calls s + max (bd (d l)) (bd (d r)) \<and>
            (\<forall>i<rows (d y). \<forall>j<cols (d y).
               store (MatrixMultiplyTranspAcc_GPU dev l r y s) (elem_addr y 0 i j)
               = store s (elem_addr y 0 i j)
                 + batch_sum_NT (store s) l r (max (bd (d l)) (bd (d r))) i j))"
proof (intro conjI impI)
  have pos: "0 < bd (d l)" "0 < bd (d r)" using rl rr k by auto
  have nb: "nat (int_of_unsigned (max (bd (d l)) (bd (d r)))) = max (bd (d l)) (bd (d r))"
    using small by (rule int_of_unsigned_small)
  {
    assume sh: "TranspMultiply_shapes l r y"
    have loop: "\<not> (bd (d l) = 1 \<and> bd (d y) = bd (d r))" using y1 k by auto
    have c: "MatrixTranspMultiplyAcc_CPU l r y s = Some (MatrixTranspMultiplyAcc_GPU dev l r y s)"
      using sh by (rule MatrixTranspMultiplyAcc_CPU_GPU)
    show n: "gemm_calls (MatrixTranspMultiplyAcc_GPU dev l r y s)
             = gemm_calls s + max (bd (d l)) (bd (d r))"
      unfolding TranspMultiplyAcc_calls if_not_P[OF loop] nb ..
    show p: "\<forall>i<rows (d y). \<forall>j<cols (d y).
                 store (MatrixTranspMultiplyAcc_GPU dev l r y s) (elem_addr y 0 i j)
                 = store s (elem_addr y 0 i j)
                   + batch_sum_TN (store s) l r (max (bd (d l)) (bd (d r))) i j"
      unfolding batch_sum_TN_mod
      using TranspMultiplyAcc_single[OF sh nl nr pos y1 k small] by blast
    show "\<exists>s'. MatrixTranspMultiplyAcc_CPU l r y s = Some s' \<and>
                    gemm_calls s' = gemm_calls s + max (bd (d l)) (bd (d r)) \<and>
                    (\<forall>i<rows (d y). \<forall>j<cols (d y).
                       store s' (elem_addr y 0 i j)
                       = store s (elem_addr y 0 i j)
                         + batch_sum_TN (store s) l r (max (bd (d l)) (bd (d r))) i j)"
      unfolding c by (intro exI[of _ "MatrixTranspMultiplyAcc_GPU dev l r y s"] conjI refl n p)
  }
  {
    assume a: "MultiplyTransp_shapes l r y \<and> bd (d l) \<noteq> bd (d r)"
    then have sh: "MultiplyTransp_shapes l r y" and ne: "bd (d l) \<noteq> bd (d r)" by blast+
    have loop: "\<not> (bd (d y) = 1 \<and> bd (d l) = bd (d r))" using ne by simp
    have c: "MatrixMultiplyTranspAcc_CPU l r y s = Some (MatrixMultiplyTranspAcc_GPU dev l r y s)"
      using sh by (rule MatrixMultiplyTranspAcc_CPU_GPU)
    show n: "gemm_calls (MatrixMultiplyTranspAcc_GPU dev l r y s)
             = gemm_calls s + max (bd (d l)) (bd (d r))"
      unfolding MultiplyTranspAcc_calls if_not_P[OF loop] nb ..
    show p: "\<forall>i<rows (d y). \<forall>j<cols (d y).
                 store (MatrixMultiplyTranspAcc_GPU dev l r y s) (elem_addr y 0 i j)
                 = store s (elem_addr y 0 i j)
                   + batch_sum_NT (store s) l r (max (bd (d l)) (bd (d r))) i j"
      unfolding batch_sum_NT_mod
      using MultiplyTranspAcc_single[OF sh nl nr pos y1 ne small] by blast
    show "\<exists>s'. MatrixMultiplyTranspAcc_CPU l r y s = Some s' \<and>
                    gemm_calls s' = gemm_calls s + max (bd (d l)) (bd (d r)) \<and>
                    (\<forall>i<rows (d y). \<forall>j<cols (d y).
                       store s' (elem_addr y 0 i j)
                       = store s (elem_addr y 0 i j)
                         + batch_sum_NT (store s) l r (max (bd (d l)) (bd (d r))) i j)"
      unfolding c by (intro exI[of _ "MatrixMultiplyTranspAcc_GPU dev l r y s"] conjI refl n p)
  }
qed

text \<open>
  The theorem at two concrete calls with 1 \<times> 1 matrices and \<open>Y = (5)\<close>: the left-transpose
  accumulate with \<open>L = (1), (2)\<close> and \<open>R = (3), (4)\<close>, and the right-transpose accumulate with
  \<open>L = (1), (2)\<close> and the single \<open>R = (3)\<close>, read at both indices.
\<close>

theorem transposed_loops_accumulate_into_single_slot_witness:
  "bd (d lt_y) = 1 \<and>
   1 < max (bd (d lt_l)) (bd (d lt_r)) \<and> 1 < max (bd (d lt_l)) (bd (d lt_r1)) \<and>
   max (bd (d lt_l)) (bd (d lt_r)) < 2 ^ 31 \<and> max (bd (d lt_l)) (bd (d lt_r1)) < 2 ^ 31 \<and>
   (bd (d lt_l) = 1 \<or> bd (d lt_l) = max (bd (d lt_l)) (bd (d lt_r))) \<and>
   (bd (d lt_r) = 1 \<or> bd (d lt_r) = max (bd (d lt_l)) (bd (d lt_r))) \<and>
   (bd (d lt_l) = 1 \<or> bd (d lt_l) = max (bd (d lt_l)) (bd (d lt_r1))) \<and>
   (bd (d lt_r1) = 1 \<or> bd (d lt_r1) = max (bd (d lt_l)) (bd (d lt_r1))) \<and>
   no_overlap lt_l lt_y \<and> no_overlap lt_r lt_y \<and> no_overlap lt_r1 lt_y \<and>
   TranspMultiply_shapes lt_l lt_r lt_y \<and>
   MultiplyTransp_shapes lt_l lt_r1 lt_y \<and> bd (d lt_l) \<noteq> bd (d lt_r1) \<and>
   gemm_calls (the (MatrixTranspMultiplyAcc_CPU lt_l lt_r lt_y machine0)) = 2 \<and>
   store (the (MatrixTranspMultiplyAcc_CPU lt_l lt_r lt_y machine0)) 5 = 5 + (1 * 3 + 2 * 4) \<and>
   gemm_calls (MatrixTranspMultiplyAcc_GPU dev0 lt_l lt_r lt_y machine0) = 2 \<and>
   store (MatrixTranspMultiplyAcc_GPU dev0 lt_l lt_r lt_y machine0) 5 = 5 + (1 * 3 + 2 * 4) \<and>
   gemm_calls (the (MatrixMultiplyTranspAcc_CPU lt_l lt_r1 lt_y machine0)) = 2 \<and>
   store (the (MatrixMultiplyTranspAcc_CPU lt_l lt_r1 lt_y machine0)) 5 = 5 + (1 * 3 + 2 * 3) \<and>
   gemm_calls (MatrixMultiplyTranspAcc_GPU dev0 lt_l lt_r1 lt_y machine0) = 2 \<and>
   store (MatrixMultiplyTranspAcc_GPU dev0 lt_l lt_r1 lt_y machine0) 5 = 5 + (1 * 3 + 2 * 3)"
proof -
  have k1: "1 < max (bd (d lt_l)) (bd (d lt_r1))"
    by (simp add: lt_l_def lt_r1_def mk_tensor_def)
  have sm: "max (bd (d lt_l)) (bd (d lt_r)) < 2 ^ 31" "max (bd (d lt_l)) (bd (d lt_r1)) < 2 ^ 31"
    by (simp_all add: lt_l_def lt_r_def lt_r1_def mk_tensor_def)
  have r1: "bd (d lt_l) = 1 \<or> bd (d lt_l) = max (bd (d lt_l)) (bd (d lt_r))"
           "bd (d lt_r) = 1 \<or> bd (d lt_r) = max (bd (d lt_l)) (bd (d lt_r))"
    by (simp_all add: lt_l_def lt_r_def mk_tensor_def)
  have r2: "bd (d lt_l) = 1 \<or> bd (d lt_l) = max (bd (d lt_l)) (bd (d lt_r1))"
           "bd (d lt_r1) = 1 \<or> bd (d lt_r1) = max (bd (d lt_l)) (bd (d lt_r1))"
    by (simp_all add: lt_l_def lt_r1_def mk_tensor_def)
  have e: "elem_addr lt_y 0 0 0 = 5" by code_simp
  have q: "0 < rows (d lt_y)" "0 < cols (d lt_y)" by (simp_all add: lt_y_def mk_tensor_def)
  have m: "gemm_calls machine0 + max (bd (d lt_l)) (bd (d lt_r)) = 2"
          "gemm_calls machine0 + max (bd (d lt_l)) (bd (d lt_r1)) = 2"
    by code_simp+
  have p1: "store machine0 5
            + batch_sum_TN (store machine0) lt_l lt_r (max (bd (d lt_l)) (bd (d lt_r))) 0 0
            = 5 + (1 * 3 + 2 * 4)"
    by code_simp
  have p2: "store machine0 5
            + batch_sum_NT (store machine0) lt_l lt_r1 (max (bd (d lt_l)) (bd (d lt_r1))) 0 0
            = 5 + (1 * 3 + 2 * 3)"
    by code_simp
  from transposed_loops_accumulate_into_single_slot
         [OF lt_hyps(12,13) sm(1) r1 lt_hyps(6,7), of machine0 dev0, THEN conjunct1, rule_format,
          OF lt_hyps(1)]
  obtain s1 where s1: "MatrixTranspMultiplyAcc_CPU lt_l lt_r lt_y machine0 = Some s1"
    and n1: "gemm_calls s1 = gemm_calls machine0 + max (bd (d lt_l)) (bd (d lt_r))"
    and c1: "\<forall>i<rows (d lt_y). \<forall>j<cols (d lt_y). store s1 (elem_addr lt_y 0 i j)
              = store machine0 (elem_addr lt_y 0 i j)
                + batch_sum_TN (store machine0) lt_l lt_r (max (bd (d lt_l)) (bd (d lt_r))) i j"
    and gn1: "gemm_calls (MatrixTranspMultiplyAcc_GPU dev0 lt_l lt_r lt_y machine0)
              = gemm_calls machine0 + max (bd (d lt_l)) (bd (d lt_r))"
    and g1: "\<forall>i<rows (d lt_y). \<forall>j<cols (d lt_y).
              store (MatrixTranspMultiplyAcc_GPU dev0 lt_l lt_r lt_y machine0) (elem_addr lt_y 0 i j)
              = store machine0 (elem_addr lt_y 0 i j)
                + batch_sum_TN (store machine0) lt_l lt_r (max (bd (d lt_l)) (bd (d lt_r))) i j"
    by blast
  from transposed_loops_accumulate_into_single_slot
         [OF lt_hyps(12) k1 sm(2) r2 lt_hyps(6,10), of machine0 dev0, THEN conjunct2, rule_format,
          OF conjI[OF lt_hyps(14,15)]]
  obtain s2 where s2: "MatrixMultiplyTranspAcc_CPU lt_l lt_r1 lt_y machine0 = Some s2"
    and n2: "gemm_calls s2 = gemm_calls machine0 + max (bd (d lt_l)) (bd (d lt_r1))"
    and c2: "\<forall>i<rows (d lt_y). \<forall>j<cols (d lt_y). store s2 (elem_addr lt_y 0 i j)
              = store machine0 (elem_addr lt_y 0 i j)
                + batch_sum_NT (store machine0) lt_l lt_r1 (max (bd (d lt_l)) (bd (d lt_r1))) i j"
    and gn2: "gemm_calls (MatrixMultiplyTranspAcc_GPU dev0 lt_l lt_r1 lt_y machine0)
              = gemm_calls machine0 + max (bd (d lt_l)) (bd (d lt_r1))"
    and g2: "\<forall>i<rows (d lt_y). \<forall>j<cols (d lt_y).
              store (MatrixMultiplyTranspAcc_GPU dev0 lt_l lt_r1 lt_y machine0) (elem_addr lt_y 0 i j)
              = store machine0 (elem_addr lt_y 0 i j)
                + batch_sum_NT (store machine0) lt_l lt_r1 (max (bd (d lt_l)) (bd (d lt_r1))) i j"
    by blast
  note v1 = c1[rule_format, OF q, unfolded e p1] g1[rule_format, OF q, unfolded e p1]
  note v2 = c2[rule_format, OF q, unfolded e p2] g2[rule_format, OF q, unfolded e p2]
  have t1: "gemm_calls (the (MatrixTranspMultiplyAcc_CPU lt_l lt_r lt_y machine0)) = 2"
           "store (the (MatrixTranspMultiplyAcc_CPU lt_l lt_r lt_y machine0)) 5 = 5 + (1 * 3 + 2 * 4)"
    unfolding s1 option.sel using n1[unfolded m] v1(1) by blast+
  have t2: "gemm_calls (the (MatrixMultiplyTranspAcc_CPU lt_l lt_r1 lt_y machine0)) = 2"
           "store (the (MatrixMultiplyTranspAcc_CPU lt_l lt_r1 lt_y machine0)) 5 = 5 + (1 * 3 + 2 * 3)"
    unfolding s2 option.sel using n2[unfolded m] v2(1) by blast+
  show ?thesis
    by (intro conjI lt_hyps(12,13) k1 sm r1 r2 lt_hyps(6,7,10,1,14,15) t1 t2
              gn1[unfolded m] gn2[unfolded m] v1(2) v2(2))
qed

section \<open>Determinism and statelessness\<close>

text \<open>
  Claim C10. Each entry point is deterministic and stateless: two calls with identical
  input tensors (the same descriptors, the same scalar, the same elements in the buffers
  of \<open>L\<close>, \<open>R\<close> and \<open>Y\<close>) leave identical output buffers. The two calls may start from
  different machines: whatever earlier calls left outside the three buffers, in the
  selected device and in the count of issued primitives does not reach the output. The
  shapes are valid and the batch counts of the operands are at least one. In the
  embedding every entry point is a function of its arguments and of the machine state,
  so it has no other memory.
\<close>

theorem entry_points_deterministic:
  fixes s1 s2 :: "'a::comm_semiring_1 machine"
  assumes agl: "agree_on l (store s1) (store s2)"
      and agr: "agree_on r (store s1) (store s2)"
      and agy: "agree_on y (store s1) (store s2)"
      and pos: "0 < bd (d l)" "0 < bd (d r)"
  shows "(MatrixMultiply_shapes l r y \<longrightarrow>
            agree_on y (store (MatrixMultiply_GPU dev l r y al s1))
                       (store (MatrixMultiply_GPU dev l r y al s2)) \<and>
            (\<exists>t1 t2. MatrixMultiply_CPU l r y al s1 = Some t1 \<and>
                     MatrixMultiply_CPU l r y al s2 = Some t2 \<and>
                     agree_on y (store t1) (store t2)))
       \<and> (TranspMultiply_shapes l r y \<longrightarrow>
            agree_on y (store (MatrixTranspMultiplyAcc_GPU dev l r y s1))
                       (store (MatrixTranspMultiplyAcc_GPU dev l r y s2)) \<and>
            (\<exists>t1 t2. MatrixTranspMultiplyAcc_CPU l r y s1 = Some t1 \<and>
                     MatrixTranspMultiplyAcc_CPU l r y s2 = Some t2 \<and>
                     agree_on y (store t1) (store t2)))
       \<and> (MultiplyTransp_shapes l r y \<longrightarrow>
            agree_on y (store (MatrixMultiplyTranspAcc_GPU dev l r y s1))
                       (store (MatrixMultiplyTranspAcc_GPU dev l r y s2)) \<and>
            (\<exists>t1 t2. MatrixMultiplyTranspAcc_CPU l r y s1 = Some t1 \<and>
                     MatrixMultiplyTranspAcc_CPU l r y s2 = Some t2 \<and>
                     agree_on y (store t1) (store t2)))"
proof -
  have eq: "\<forall>x. in_bufs l r y x \<longrightarrow> store s1 x = store s2 x"
    using agl agr agy by (simp add: agree_in_bufs[symmetric])
  have toy: "agree_on y st st'" if "\<forall>x. in_bufs l r y x \<longrightarrow> st x = st' x" for st st' :: "nat \<Rightarrow> 'a"
    using that by (simp add: agree_on_in_buf in_bufs_def)
  show ?thesis
  proof (intro conjI impI)
    assume sh: "MatrixMultiply_shapes l r y"
    have "\<forall>x. in_bufs l r y x \<longrightarrow> store (cudaSetDevice (cuda_device_id dev) s1) x
                                   = store (cudaSetDevice (cuda_device_id dev) s2) x"
      using eq by simp
    from mm_sgemm_agree[OF sh this]
    show g: "agree_on y (store (MatrixMultiply_GPU dev l r y al s1))
                        (store (MatrixMultiply_GPU dev l r y al s2))"
      unfolding MatrixMultiply_GPU_sgemm by (rule toy)
    have c: "agree_on y (store (mm_sgemm l r y kSCALAR_ONE (scale_tbvec al y s1)))
                        (store (mm_sgemm l r y kSCALAR_ONE (scale_tbvec al y s2)))"
      by (intro toy mm_sgemm_agree[OF sh] scale_tbvec_agree eq)
    show "\<exists>t1 t2. MatrixMultiply_CPU l r y al s1 = Some t1 \<and>
                     MatrixMultiply_CPU l r y al s2 = Some t2 \<and>
                     agree_on y (store t1) (store t2)"
      using c by (simp add: MatrixMultiply_CPU_sgemm[OF sh])
  next
    assume sh: "TranspMultiply_shapes l r y"
    show g: "agree_on y (store (MatrixTranspMultiplyAcc_GPU dev l r y s1))
                        (store (MatrixTranspMultiplyAcc_GPU dev l r y s2))"
      by (intro toy TranspMultiplyAcc_agree[OF sh pos eq])
    show "\<exists>t1 t2. MatrixTranspMultiplyAcc_CPU l r y s1 = Some t1 \<and>
                     MatrixTranspMultiplyAcc_CPU l r y s2 = Some t2 \<and>
                     agree_on y (store t1) (store t2)"
      using g by (simp add: MatrixTranspMultiplyAcc_CPU_GPU[OF sh, of _ dev])
  next
    assume sh: "MultiplyTransp_shapes l r y"
    show g: "agree_on y (store (MatrixMultiplyTranspAcc_GPU dev l r y s1))
                        (store (MatrixMultiplyTranspAcc_GPU dev l r y s2))"
      by (intro toy MultiplyTranspAcc_agree[OF sh pos eq])
    show "\<exists>t1 t2. MatrixMultiplyTranspAcc_CPU l r y s1 = Some t1 \<and>
                     MatrixMultiplyTranspAcc_CPU l r y s2 = Some t2 \<and>
                     agree_on y (store t1) (store t2)"
      using g by (simp add: MatrixMultiplyTranspAcc_CPU_GPU[OF sh, of _ dev])
  qed
qed

text \<open>
  The theorem at three concrete calls, each started from the two machines of the section
  on concrete inputs.
\<close>

theorem entry_points_deterministic_witness:
  "agree_on fwd_l (store machine0) (store machine1) \<and>
   agree_on fwd_r (store machine0) (store machine1) \<and>
   agree_on fwd_y (store machine0) (store machine1) \<and>
   0 < bd (d fwd_l) \<and> 0 < bd (d fwd_r) \<and> MatrixMultiply_shapes fwd_l fwd_r fwd_y \<and>
   agree_on fwd_y (store (MatrixMultiply_GPU dev0 fwd_l fwd_r fwd_y 3 machine0))
                  (store (MatrixMultiply_GPU dev0 fwd_l fwd_r fwd_y 3 machine1)) \<and>
   agree_on fwd_y (store (the (MatrixMultiply_CPU fwd_l fwd_r fwd_y 3 machine0)))
                  (store (the (MatrixMultiply_CPU fwd_l fwd_r fwd_y 3 machine1))) \<and>
   agree_on lt_l (store machine0) (store machine1) \<and>
   agree_on lt_r (store machine0) (store machine1) \<and>
   agree_on lt_y2 (store machine0) (store machine1) \<and>
   0 < bd (d lt_l) \<and> 0 < bd (d lt_r) \<and> TranspMultiply_shapes lt_l lt_r lt_y2 \<and>
   agree_on lt_y2 (store (MatrixTranspMultiplyAcc_GPU dev0 lt_l lt_r lt_y2 machine0))
                  (store (MatrixTranspMultiplyAcc_GPU dev0 lt_l lt_r lt_y2 machine1)) \<and>
   agree_on lt_y2 (store (the (MatrixTranspMultiplyAcc_CPU lt_l lt_r lt_y2 machine0)))
                  (store (the (MatrixTranspMultiplyAcc_CPU lt_l lt_r lt_y2 machine1))) \<and>
   agree_on rt_l (store machine0) (store machine1) \<and>
   agree_on rt_r (store machine0) (store machine1) \<and>
   agree_on rt_y (store machine0) (store machine1) \<and>
   0 < bd (d rt_l) \<and> 0 < bd (d rt_r) \<and> MultiplyTransp_shapes rt_l rt_r rt_y \<and>
   agree_on rt_y (store (MatrixMultiplyTranspAcc_GPU dev0 rt_l rt_r rt_y machine0))
                 (store (MatrixMultiplyTranspAcc_GPU dev0 rt_l rt_r rt_y machine1)) \<and>
   agree_on rt_y (store (the (MatrixMultiplyTranspAcc_CPU rt_l rt_r rt_y machine0)))
                 (store (the (MatrixMultiplyTranspAcc_CPU rt_l rt_r rt_y machine1)))"
proof -
  from entry_points_deterministic[OF machine_agree(1-3) fwd_pos, of dev0 3, THEN conjunct1,
         rule_format, OF fwd_hyps(1)]
  obtain a1 a2 where
       g1: "agree_on fwd_y (store (MatrixMultiply_GPU dev0 fwd_l fwd_r fwd_y 3 machine0))
                           (store (MatrixMultiply_GPU dev0 fwd_l fwd_r fwd_y 3 machine1))"
   and a: "MatrixMultiply_CPU fwd_l fwd_r fwd_y 3 machine0 = Some a1"
          "MatrixMultiply_CPU fwd_l fwd_r fwd_y 3 machine1 = Some a2"
          "agree_on fwd_y (store a1) (store a2)"
    by blast
  from entry_points_deterministic[OF machine_agree(4-6) lt_hyps(3,4), of dev0 3, THEN conjunct2,
         THEN conjunct1, rule_format, OF lt_hyps(2)]
  obtain b1 b2 where
       g2: "agree_on lt_y2 (store (MatrixTranspMultiplyAcc_GPU dev0 lt_l lt_r lt_y2 machine0))
                           (store (MatrixTranspMultiplyAcc_GPU dev0 lt_l lt_r lt_y2 machine1))"
   and b: "MatrixTranspMultiplyAcc_CPU lt_l lt_r lt_y2 machine0 = Some b1"
          "MatrixTranspMultiplyAcc_CPU lt_l lt_r lt_y2 machine1 = Some b2"
          "agree_on lt_y2 (store b1) (store b2)"
    by blast
  from entry_points_deterministic[OF machine_agree(7-9) rt_hyps_pos(1,2), of dev0 3, THEN conjunct2,
         THEN conjunct2, rule_format, OF rt_hyps(1)]
  obtain c1 c2 where
       g3: "agree_on rt_y (store (MatrixMultiplyTranspAcc_GPU dev0 rt_l rt_r rt_y machine0))
                          (store (MatrixMultiplyTranspAcc_GPU dev0 rt_l rt_r rt_y machine1))"
   and c: "MatrixMultiplyTranspAcc_CPU rt_l rt_r rt_y machine0 = Some c1"
          "MatrixMultiplyTranspAcc_CPU rt_l rt_r rt_y machine1 = Some c2"
          "agree_on rt_y (store c1) (store c2)"
    by blast
  show ?thesis
    using machine_agree fwd_pos lt_hyps(2,3,4) rt_hyps_pos(1,2) fwd_hyps(1) rt_hyps(1)
          g1 g2 g3 a b c
    by simp
qed

end
